theory Spec2Isabelle
  imports Main "HOL-Library.Sublist"
begin

section \<open>The storage engine behind \<open>QSqlDatabase\<close> and \<open>QSqlQuery\<close>\<close>

text \<open>
  \<open>SQLWorker\<close> (sqlworker.cpp) talks to an SQLite file through Qt's SQL classes. Those
  classes are not part of the repository; they are modelled here as far as the worker
  uses them.

  \<^item> Every value the worker reads is turned into text at once (\<open>QVariant::toString\<close>),
    and every value it writes is bound as text. A stored value is therefore modelled by
    its textual rendering, a \<open>string\<close>.
  \<^item> The content of a database file is the list of its schema objects in the order of
    \<open>sqlite_master\<close>.
  \<^item> The worker pastes table and column names, unquoted, into the text of four of its
    statements. What the engine makes of such a text is not fixed here: it is the
    parameter \<open>E\<close> of type \<open>engine\<close>, which receives the text exactly as the worker
    builds it. A property stated for every \<open>E\<close> holds whatever the engine's parser,
    name resolution, keys, constraints and generated columns do.
  \<^item> Any call into the engine may moreover fail for a reason outside the program (I/O
    error, lock). The field \<open>faults\<close> is the schedule of such failures: each fallible call
    consumes its head, and the call fails when the head is \<open>True\<close>. An empty schedule
    means no further failure.
  \<^item> The field \<open>calls\<close> records every call made to the engine, oldest first.
\<close>

datatype objtype = OTable | OIndex | OView | OTrigger

text \<open>A schema object. For a table, \<open>obj_columns\<close> are its columns in the order of
  \<open>SELECT *\<close>, \<open>obj_generated\<close> maps each generated column to the column whose value it
  repeats, and \<open>obj_rows\<close> are its rows in the order the engine returns them.\<close>

record dbobject =
  obj_type :: objtype
  obj_name :: string
  obj_columns :: "string list"
  obj_generated :: "(string \<times> string) list"
  obj_rows :: "string list list"

text \<open>The statements the worker builds from its query constants, with what it pastes
  into them.\<close>

datatype statement =
    GET_TABLES_QUERY
  | GET_COLUMNS_QUERY string
  | SELECT_ALL_QUERY string
  | DELETE_ALL_QUERY string
  | INSERT_QUERY_TEMPLATE string "string list" "string list"
  | TEST_QUERY

datatype call =
    Open string
  | Close
  | Transaction
  | Commit
  | Rollback
  | Exec statement
  | Prepare statement
  | ExecPrepared statement "string list"

record connection =
  is_open :: bool
  durable :: "dbobject list"
  pending :: "dbobject list option"
  faults :: "bool list"
  calls :: "call list"

text \<open>\<open>QStringList::join\<close> and the text of each statement, as the constants at the top of
  sqlworker.cpp and \<open>QString::arg\<close> spell it. This text is all the engine sees.\<close>

fun join :: "string list \<Rightarrow> string \<Rightarrow> string" where
  "join [] sep = []"
| "join [x] sep = x"
| "join (x # y # ys) sep = x @ sep @ join (y # ys) sep"

fun sql_text :: "statement \<Rightarrow> string" where
  "sql_text GET_TABLES_QUERY =
     ''SELECT name FROM sqlite_master WHERE type='' @ [CHR 0x27] @ ''table'' @ [CHR 0x27]
       @ '' AND name NOT LIKE '' @ [CHR 0x27] @ ''sqlite_%'' @ [CHR 0x27]"
| "sql_text (GET_COLUMNS_QUERY t) = ''PRAGMA table_info('' @ t @ '')''"
| "sql_text (SELECT_ALL_QUERY t) = ''SELECT * FROM '' @ t"
| "sql_text (DELETE_ALL_QUERY t) = ''DELETE FROM '' @ t"
| "sql_text (INSERT_QUERY_TEMPLATE t cols phs) =
     ''INSERT INTO '' @ t @ '' ('' @ join cols '', '' @ '') VALUES ('' @ join phs '', '' @ '')''"
| "sql_text TEST_QUERY = ''SELECT 1''"

text \<open>The engine, as far as it depends on pasted text: the rows it returns for a statement
  that only reads (\<open>PRAGMA table_info(...)\<close>, \<open>SELECT * FROM ...\<close>), the content it leaves
  after a statement that writes (\<open>DELETE FROM ...\<close>, \<open>INSERT INTO ...\<close> with its bound
  values), and whether it compiles a text (\<open>QSqlQuery::prepare\<close>). \<open>None\<close> and \<open>False\<close>
  mean that the engine rejects the text, or the row.\<close>

record engine =
  eng_query :: "string \<Rightarrow> dbobject list \<Rightarrow> string list list option"
  eng_update :: "string \<Rightarrow> string list \<Rightarrow> dbobject list \<Rightarrow> dbobject list option"
  eng_prepare :: "string \<Rightarrow> dbobject list \<Rightarrow> bool"

subsection \<open>The \<open>LIKE\<close> operator\<close>

text \<open>SQLite's \<open>LIKE\<close>: \<open>%\<close> matches any run of characters, \<open>_\<close> matches any single
  character, and every other character matches itself without regard to ASCII letter case.\<close>

definition ascii_lower :: "char \<Rightarrow> char" where
  "ascii_lower ch =
     (let n = (of_char ch :: nat) in if 65 \<le> n \<and> n \<le> 90 then char_of (n + 32) else ch)"

fun sql_like :: "string \<Rightarrow> string \<Rightarrow> bool" where
  "sql_like [] [] = True"
| "sql_like [] (c # cs) = False"
| "sql_like (p # ps) [] = (p = CHR ''%'' \<and> sql_like ps [])"
| "sql_like (p # ps) (c # cs) =
     (if p = CHR ''%'' then sql_like ps (c # cs) \<or> sql_like (p # ps) cs
      else if p = CHR ''_'' then sql_like ps cs
      else ascii_lower p = ascii_lower c \<and> sql_like ps cs)"

subsection \<open>Running a statement on the content of a database\<close>

text \<open>Decimal rendering of a number, as \<open>QString::arg(int)\<close> produces it.\<close>

fun decimal :: "nat \<Rightarrow> string" where
  "decimal n =
     (if n < 10 then [char_of (48 + n)] else decimal (n div 10) @ [char_of (48 + n mod 10)])"

declare decimal.simps [simp del]

text \<open>The result rows of a statement run with the bound values \<open>vals\<close>, and the content
  it leaves; \<open>None\<close> when the engine rejects it. The table query and the test query are
  fixed texts, and what SQLite answers to them is written out. The other statements go to
  the engine as text; the two that read leave the content as it is.\<close>

fun run_statement ::
  "engine \<Rightarrow> statement \<Rightarrow> string list \<Rightarrow> dbobject list
     \<Rightarrow> (string list list \<times> dbobject list) option" where
  "run_statement E GET_TABLES_QUERY vals d =
     Some (map (\<lambda>ob. [obj_name ob])
             (filter (\<lambda>ob. obj_type ob = OTable \<and> \<not> sql_like ''sqlite_%'' (obj_name ob)) d), d)"
| "run_statement E TEST_QUERY vals d = Some ([[''1'']], d)"
| "run_statement E (GET_COLUMNS_QUERY t) vals d =
     map_option (\<lambda>rows. (rows, d)) (eng_query E (sql_text (GET_COLUMNS_QUERY t)) d)"
| "run_statement E (SELECT_ALL_QUERY t) vals d =
     map_option (\<lambda>rows. (rows, d)) (eng_query E (sql_text (SELECT_ALL_QUERY t)) d)"
| "run_statement E (DELETE_ALL_QUERY t) vals d =
     map_option (\<lambda>d'. ([], d')) (eng_update E (sql_text (DELETE_ALL_QUERY t)) vals d)"
| "run_statement E (INSERT_QUERY_TEMPLATE t cols phs) vals d =
     map_option (\<lambda>d'. ([], d'))
       (eng_update E (sql_text (INSERT_QUERY_TEMPLATE t cols phs)) vals d)"

text \<open>Whether the engine compiles a statement (what \<open>QSqlQuery::prepare\<close> reports).\<close>

fun compiles :: "engine \<Rightarrow> statement \<Rightarrow> dbobject list \<Rightarrow> bool" where
  "compiles E GET_TABLES_QUERY d = True"
| "compiles E TEST_QUERY d = True"
| "compiles E (GET_COLUMNS_QUERY t) d = eng_prepare E (sql_text (GET_COLUMNS_QUERY t)) d"
| "compiles E (SELECT_ALL_QUERY t) d = eng_prepare E (sql_text (SELECT_ALL_QUERY t)) d"
| "compiles E (DELETE_ALL_QUERY t) d = eng_prepare E (sql_text (DELETE_ALL_QUERY t)) d"
| "compiles E (INSERT_QUERY_TEMPLATE t cols phs) d =
     eng_prepare E (sql_text (INSERT_QUERY_TEMPLATE t cols phs)) d"

subsection \<open>Connections and transactions\<close>

text \<open>A fallible call is recorded and takes the next entry of the fault schedule.\<close>

definition engine_call :: "call \<Rightarrow> connection \<Rightarrow> bool \<times> connection" where
  "engine_call k c =
     (case faults c of
        [] \<Rightarrow> (False, c\<lparr>calls := calls c @ [k]\<rparr>)
      | f # fs \<Rightarrow> (f, c\<lparr>faults := fs, calls := calls c @ [k]\<rparr>))"

text \<open>Statements read and write the working copy of the open transaction if there is
  one, and the file itself otherwise.\<close>

definition db_view :: "connection \<Rightarrow> dbobject list" where
  "db_view c = (case pending c of Some d \<Rightarrow> d | None \<Rightarrow> durable c)"

definition db_store :: "dbobject list \<Rightarrow> connection \<Rightarrow> connection" where
  "db_store d c = (case pending c of Some _ \<Rightarrow> c\<lparr>pending := Some d\<rparr> | None \<Rightarrow> c\<lparr>durable := d\<rparr>)"

text \<open>\<open>QSqlDatabase::open\<close> on the file at \<open>path\<close>; \<open>fs\<close> says which paths hold a database
  that can be opened, and with what content.\<close>

definition open_db ::
  "(string \<Rightarrow> dbobject list option) \<Rightarrow> string \<Rightarrow> connection \<Rightarrow> bool \<times> connection" where
  "open_db fs path c =
     (let (fault, c1) = engine_call (Open path) c in
      case fs path of
        None \<Rightarrow> (False, c1)
      | Some d \<Rightarrow>
          if fault then (False, c1)
          else (True, c1\<lparr>is_open := True, durable := d, pending := None\<rparr>))"

text \<open>\<open>QSqlDatabase::close\<close>: an open transaction is abandoned.\<close>

definition close_db :: "connection \<Rightarrow> connection" where
  "close_db c = c\<lparr>is_open := False, pending := None, calls := calls c @ [Close]\<rparr>"

text \<open>\<open>QSqlDatabase::transaction\<close>, \<open>commit\<close> and \<open>rollback\<close>. A transaction cannot be
  started inside another one; \<open>rollback\<close> abandons the working copy.\<close>

definition transaction :: "connection \<Rightarrow> bool \<times> connection" where
  "transaction c =
     (let (fault, c1) = engine_call Transaction c in
      if fault \<or> \<not> is_open c1 \<or> pending c1 \<noteq> None then (False, c1)
      else (True, c1\<lparr>pending := Some (durable c1)\<rparr>))"

definition commit :: "connection \<Rightarrow> bool \<times> connection" where
  "commit c =
     (let (fault, c1) = engine_call Commit c in
      if fault \<or> \<not> is_open c1 then (False, c1)
      else case pending c1 of
             None \<Rightarrow> (False, c1)
           | Some d \<Rightarrow> (True, c1\<lparr>durable := d, pending := None\<rparr>))"

definition rollback :: "connection \<Rightarrow> connection" where
  "rollback c = c\<lparr>pending := None, calls := calls c @ [Rollback]\<rparr>"

text \<open>\<open>QSqlQuery::exec(const QString &)\<close>, \<open>QSqlQuery::prepare\<close> and \<open>QSqlQuery::exec()\<close>
  on a prepared statement with its bound values.\<close>

definition run_on ::
  "engine \<Rightarrow> statement \<Rightarrow> string list \<Rightarrow> connection
     \<Rightarrow> string list list option \<times> connection" where
  "run_on E q vals c =
     (case run_statement E q vals (db_view c) of
        None \<Rightarrow> (None, c)
      | Some (rows, d) \<Rightarrow> (Some rows, db_store d c))"

definition exec_query ::
  "engine \<Rightarrow> statement \<Rightarrow> connection \<Rightarrow> string list list option \<times> connection" where
  "exec_query E q c =
     (let (fault, c1) = engine_call (Exec q) c in
      if fault \<or> \<not> is_open c1 then (None, c1) else run_on E q [] c1)"

definition prepare_query :: "engine \<Rightarrow> statement \<Rightarrow> connection \<Rightarrow> bool \<times> connection" where
  "prepare_query E q c =
     (let (fault, c1) = engine_call (Prepare q) c in
      (\<not> fault \<and> is_open c1 \<and> compiles E q (db_view c1), c1))"

definition exec_prepared ::
  "engine \<Rightarrow> statement \<Rightarrow> string list \<Rightarrow> connection
     \<Rightarrow> string list list option \<times> connection" where
  "exec_prepared E q vals c =
     (let (fault, c1) = engine_call (ExecPrepared q vals) c in
      if fault \<or> \<not> is_open c1 then (None, c1) else run_on E q vals c1)"

text \<open>\<open>QSqlQuery q(text, db); q.exec()\<close>: the constructor already executes the statement,
  and \<open>exec()\<close> runs it once more; without a statement from the constructor, \<open>exec()\<close>
  fails.\<close>

definition construct_and_exec ::
  "engine \<Rightarrow> statement \<Rightarrow> connection \<Rightarrow> string list list option \<times> connection" where
  "construct_and_exec E q c =
     (case exec_query E q c of
        (None, c1) \<Rightarrow> (None, c1)
      | (Some _, c1) \<Rightarrow> exec_prepared E q [] c1)"

text \<open>\<open>QSqlQuery::value(i).toString()\<close>: a field outside the record renders empty.\<close>

definition value_at :: "string list \<Rightarrow> nat \<Rightarrow> string" where
  "value_at row i = (if i < length row then row ! i else [])"

section \<open>The grid: \<open>QTableWidget\<close>\<close>

text \<open>
  A table widget has a horizontal header item per column and a cell item per row and
  column; either may be absent (a null pointer), which is \<open>None\<close>. The column count is the
  length of the header list, the row count the length of the list of rows.
\<close>

record table_widget =
  hheader :: "string option list"
  cells :: "string option list list"

definition columnCount :: "table_widget \<Rightarrow> nat" where
  "columnCount w = length (hheader w)"

definition rowCount :: "table_widget \<Rightarrow> nat" where
  "rowCount w = length (cells w)"

definition horizontalHeaderItem :: "table_widget \<Rightarrow> nat \<Rightarrow> string option" where
  "horizontalHeaderItem w c = (if c < columnCount w then hheader w ! c else None)"

definition item :: "table_widget \<Rightarrow> nat \<Rightarrow> nat \<Rightarrow> string option" where
  "item w r c =
     (if r < rowCount w \<and> c < length (cells w ! r) then cells w ! r ! c else None)"








section \<open>\<open>SQLWorker\<close>\<close>

record worker =
  CurrentFilePath :: string
  AvailableTableNames :: "string list"
  FileLoaded :: bool
  SqlDatabase :: connection

definition GetTableNames :: "worker \<Rightarrow> string list" where
  "GetTableNames s = AvailableTableNames s"

definition GetCurrentFilePath :: "worker \<Rightarrow> string" where
  "GetCurrentFilePath s = CurrentFilePath s"

definition IsFileLoaded :: "worker \<Rightarrow> bool" where
  "IsFileLoaded s = (FileLoaded s \<and> is_open (SqlDatabase s))"

subsection \<open>\<open>ValidateDatabaseConnection\<close> and \<open>ParseSQLStructure\<close>\<close>

definition ValidateDatabaseConnection :: "engine \<Rightarrow> connection \<Rightarrow> bool \<times> connection" where
  "ValidateDatabaseConnection E c =
     (if \<not> is_open c then (False, c)
      else case construct_and_exec E TEST_QUERY c of
             (None, c1) \<Rightarrow> (False, c1)
           | (Some _, c1) \<Rightarrow> (True, c1))"

text \<open>The loop over the result of \<open>GET_TABLES_QUERY\<close>: the name is field 0, and an empty
  name is skipped.\<close>

fun table_names_loop :: "string list list \<Rightarrow> string list \<Rightarrow> string list" where
  "table_names_loop [] names = names"
| "table_names_loop (row # rest) names =
     (let tableName = value_at row 0
      in table_names_loop rest (if tableName \<noteq> [] then names @ [tableName] else names))"

definition ParseSQLStructure :: "engine \<Rightarrow> worker \<Rightarrow> worker" where
  "ParseSQLStructure E s =
     (let s0 = s\<lparr>AvailableTableNames := []\<rparr> in
      case construct_and_exec E GET_TABLES_QUERY (SqlDatabase s0) of
        (None, c1) \<Rightarrow> s0\<lparr>SqlDatabase := c1\<rparr>
      | (Some rows, c1) \<Rightarrow>
          s0\<lparr>SqlDatabase := c1, AvailableTableNames := table_names_loop rows []\<rparr>)"

subsection \<open>\<open>LoadSQLFile\<close>\<close>

text \<open>The connection registered under the worker's name is closed, removed and replaced
  by a new one on \<open>filePath\<close>; the fault schedule and the record of calls belong to the
  engine and carry over.\<close>

definition LoadSQLFile ::
  "engine \<Rightarrow> (string \<Rightarrow> dbobject list option) \<Rightarrow> string \<Rightarrow> worker
     \<Rightarrow> bool \<times> worker" where
  "LoadSQLFile E fs filePath s =
     (if filePath = [] then (False, s)
      else
        let c0 = (if is_open (SqlDatabase s) then close_db (SqlDatabase s) else SqlDatabase s);
            cnew = c0\<lparr>is_open := False, durable := [], pending := None\<rparr>
        in (case open_db fs filePath cnew of
              (False, c1) \<Rightarrow> (False, s\<lparr>SqlDatabase := c1\<rparr>)
            | (True, c1) \<Rightarrow>
                (case ValidateDatabaseConnection E c1 of
                   (False, c2) \<Rightarrow> (False, s\<lparr>SqlDatabase := close_db c2\<rparr>)
                 | (True, c2) \<Rightarrow>
                     let s1 = ParseSQLStructure E
                                (s\<lparr>SqlDatabase := c2, CurrentFilePath := filePath\<rparr>)
                     in (True, s1\<lparr>FileLoaded := True\<rparr>))))"

subsection \<open>\<open>GetTableColumns\<close>\<close>

fun columns_loop :: "string list list \<Rightarrow> string list \<Rightarrow> string list" where
  "columns_loop [] columns = columns"
| "columns_loop (row # rest) columns = columns_loop rest (columns @ [value_at row 1])"

definition GetTableColumns ::
  "engine \<Rightarrow> string \<Rightarrow> connection \<Rightarrow> string list \<times> connection" where
  "GetTableColumns E tableName c =
     (case exec_query E (GET_COLUMNS_QUERY tableName) c of
        (None, c1) \<Rightarrow> ([], c1)
      | (Some rows, c1) \<Rightarrow> (columns_loop rows [], c1))"

subsection \<open>\<open>LoadTableData\<close>\<close>



subsection \<open>\<open>UpdateCompleteTable\<close>\<close>

text \<open>The loop that collects the column names: the header label where the grid has one;
  otherwise the column the schema has at this position, asked from the engine for this
  position; otherwise a generated name.\<close>

fun column_names_loop ::
  "engine \<Rightarrow> string \<Rightarrow> table_widget \<Rightarrow> nat list \<Rightarrow> string list \<Rightarrow> connection
     \<Rightarrow> string list \<times> connection" where
  "column_names_loop E tableName w [] columnNames c = (columnNames, c)"
| "column_names_loop E tableName w (col # rest) columnNames c =
     (case horizontalHeaderItem w col of
        Some txt \<Rightarrow> column_names_loop E tableName w rest (columnNames @ [txt]) c
      | None \<Rightarrow>
          let (dbColumns, c1) = GetTableColumns E tableName c in
          if col < length dbColumns
          then column_names_loop E tableName w rest (columnNames @ [dbColumns ! col]) c1
          else column_names_loop E tableName w rest
                 (columnNames @ [''Column_'' @ decimal (col + 1)]) c1)"

text \<open>The values bound for one row: the text of each cell, and the empty string for
  a missing item.\<close>

definition row_values :: "table_widget \<Rightarrow> nat \<Rightarrow> string list" where
  "row_values w row =
     map (\<lambda>col. case item w row col of Some txt \<Rightarrow> txt | None \<Rightarrow> []) [0..<columnCount w]"

text \<open>The loop over the rows of the grid. It returns \<open>False\<close> as soon as a row cannot be
  prepared or executed, after rolling back.\<close>

fun insert_rows_loop ::
  "engine \<Rightarrow> statement \<Rightarrow> table_widget \<Rightarrow> nat list \<Rightarrow> connection
     \<Rightarrow> bool \<times> connection" where
  "insert_rows_loop E insertQuery w [] c = (True, c)"
| "insert_rows_loop E insertQuery w (row # rest) c =
     (case prepare_query E insertQuery c of
        (False, c1) \<Rightarrow> (False, rollback c1)
      | (True, c1) \<Rightarrow>
          (case exec_prepared E insertQuery (row_values w row) c1 of
             (None, c2) \<Rightarrow> (False, rollback c2)
           | (Some _, c2) \<Rightarrow> insert_rows_loop E insertQuery w rest c2))"

text \<open>The part of \<open>UpdateCompleteTable\<close> after its parameter checks.\<close>

definition replace_rows ::
  "engine \<Rightarrow> string \<Rightarrow> table_widget \<Rightarrow> connection \<Rightarrow> bool \<times> connection" where
  "replace_rows E tableName w c =
     (case transaction c of
        (False, c1) \<Rightarrow> (False, c1)
      | (True, c1) \<Rightarrow>
          (case exec_query E (DELETE_ALL_QUERY tableName) c1 of
             (None, c2) \<Rightarrow> (False, rollback c2)
           | (Some _, c2) \<Rightarrow>
               let (columnNames, c3) =
                     column_names_loop E tableName w [0..<columnCount w] [] c2;
                   placeholders = replicate (length columnNames) ''?'';
                   insertQuery = INSERT_QUERY_TEMPLATE tableName columnNames placeholders
               in (case prepare_query E insertQuery c3 of
                     (False, c4) \<Rightarrow> (False, rollback c4)
                   | (True, c4) \<Rightarrow>
                       (case insert_rows_loop E insertQuery w [0..<rowCount w] c4 of
                          (False, c5) \<Rightarrow> (False, c5)
                        | (True, c5) \<Rightarrow>
                            (case commit c5 of
                               (False, c6) \<Rightarrow> (False, rollback c6)
                             | (True, c6) \<Rightarrow> (True, c6))))))"

definition UpdateCompleteTable ::
  "engine \<Rightarrow> string \<Rightarrow> table_widget option \<Rightarrow> worker \<Rightarrow> bool \<times> worker" where
  "UpdateCompleteTable E tableName tableWidget s =
     (case tableWidget of
        None \<Rightarrow> (False, s)
      | Some w \<Rightarrow>
          if \<not> FileLoaded s \<or> tableName = [] then (False, s)
          else if \<not> is_open (SqlDatabase s) then (False, s)
          else
            let (ok, c) = replace_rows E tableName w (SqlDatabase s)
            in (ok, s\<lparr>SqlDatabase := c\<rparr>))"

section \<open>Notions used to state the properties\<close>

text \<open>The names of the tables of a database, in the order of \<open>sqlite_master\<close>.\<close>

definition table_names :: "dbobject list \<Rightarrow> string list" where
  "table_names d = map obj_name (filter (\<lambda>ob. obj_type ob = OTable) d)"

text \<open>The user-defined tables in the words of the specification: every table but the
  engine's internal ones, whose names begin with the reserved prefix \<open>sqlite_\<close>.\<close>

definition user_defined_tables :: "dbobject list \<Rightarrow> string list" where
  "user_defined_tables d = filter (\<lambda>n. \<not> prefix ''sqlite_'' n) (table_names d)"

text \<open>What \<open>ParseSQLStructure\<close> collects when its query succeeds.\<close>

definition listed_names :: "dbobject list \<Rightarrow> string list" where
  "listed_names d =
     filter (\<lambda>n. n \<noteq> [])
       (map obj_name
          (filter (\<lambda>ob. obj_type ob = OTable \<and> \<not> sql_like ''sqlite_%'' (obj_name ob)) d))"

text \<open>\<open>LoadSQLFile\<close> makes five calls to the engine: it opens the file, runs the test
  query twice and the table query twice. The table query fails when the fault schedule
  hits the fourth or the fifth call.\<close>

definition tables_query_fails :: "worker \<Rightarrow> bool" where
  "tables_query_fails s = (True \<in> set (take 2 (drop 3 (faults (SqlDatabase s)))))"


text \<open>The engine raises no fault from now on.\<close>

definition fault_free :: "connection \<Rightarrow> bool" where
  "fault_free c = (True \<notin> set (faults c))"

text \<open>The Schema Catalog's column list of a table in the content \<open>d\<close>: field 1 of each row
  the engine returns for \<open>PRAGMA table_info(<name>)\<close>, and no column when it rejects that
  text.\<close>

definition catalog :: "engine \<Rightarrow> string \<Rightarrow> dbobject list \<Rightarrow> string list" where
  "catalog E t d =
     (case eng_query E (sql_text (GET_COLUMNS_QUERY t)) d of
        None \<Rightarrow> []
      | Some rows \<Rightarrow> map (\<lambda>row. value_at row 1) rows)"

text \<open>The column name for position \<open>n\<close> in the words of the specification: the grid's
  own header label if it has one; otherwise the catalog's column at this position;
  otherwise the placeholder \<open>Column_<n+1>\<close>.\<close>

definition resolved_name :: "table_widget \<Rightarrow> string list \<Rightarrow> nat \<Rightarrow> string" where
  "resolved_name w cat n =
     (case horizontalHeaderItem w n of
        Some label \<Rightarrow> label
      | None \<Rightarrow> if n < length cat then cat ! n else ''Column_'' @ decimal (n + 1))"


text \<open>The connection as \<open>UpdateCompleteTable\<close> finds it after starting the transaction
  and deleting the rows; the column names its loop collects there, which are the names it
  writes; the statement it prepares from them; the number of columns of the grid without a
  header item; and the calls of its loop over the rows.\<close>

definition after_delete :: "engine \<Rightarrow> string \<Rightarrow> connection \<Rightarrow> connection" where
  "after_delete E t c = snd (exec_query E (DELETE_ALL_QUERY t) (snd (transaction c)))"

definition written_names ::
  "engine \<Rightarrow> string \<Rightarrow> table_widget \<Rightarrow> connection \<Rightarrow> string list" where
  "written_names E t w c =
     fst (column_names_loop E t w [0..<columnCount w] [] (after_delete E t c))"

definition insert_statement :: "string \<Rightarrow> string list \<Rightarrow> statement" where
  "insert_statement t names = INSERT_QUERY_TEMPLATE t names (replicate (length names) ''?'')"

definition headerless :: "table_widget \<Rightarrow> nat" where
  "headerless w = length (filter (\<lambda>n. horizontalHeaderItem w n = None) [0..<columnCount w])"

definition row_calls :: "statement \<Rightarrow> table_widget \<Rightarrow> call list" where
  "row_calls q w =
     concat (map (\<lambda>r. [Prepare q, ExecPrepared q (row_values w r)]) [0..<rowCount w])"




section \<open>An engine for the examples\<close>

text \<open>The examples below run on \<open>plain_engine\<close>. It reads the text of a statement as
  SQLite does in the simplest case, and no further: it splits the text into words and
  punctuation, accepts the four statement shapes of the worker when the pasted names are
  single unquoted words that are not reserved, resolves a table or column name without
  regard to ASCII letter case, appends an inserted row after the rows present, and
  answers \<open>PRAGMA table_info\<close> with the columns that are not generated. Its tables have
  columns without type, key, constraint or default. Every other text is rejected here,
  also where SQLite accepts it (quoted or qualified names, aliases, further clauses,
  the names of the hidden row id). The properties below are stated for every engine;
  this one only supplies instances.\<close>

definition word_char :: "char \<Rightarrow> bool" where
  "word_char ch =
     (ch \<in> set ''abcdefghijklmnopqrstuvwxyzABCDEFGHIJKLMNOPQRSTUVWXYZ0123456789_'')"

definition digit_char :: "char \<Rightarrow> bool" where
  "digit_char ch = (ch \<in> set ''0123456789'')"

definition space_char :: "char \<Rightarrow> bool" where
  "space_char ch = (ch \<in> set [CHR '' '', CHR 0x09, CHR 0x0A, CHR 0x0C, CHR 0x0D])"

text \<open>The tokens of a text: maximal runs of word characters, and every other character
  that is not white space on its own. \<open>word\<close> is the run read so far.\<close>

fun scan :: "string \<Rightarrow> string \<Rightarrow> string list" where
  "scan word [] = (if word = [] then [] else [word])"
| "scan word (ch # rest) =
     (if word_char ch then scan (word @ [ch]) rest
      else (if word = [] then [] else [word])
             @ (if space_char ch then [] else [[ch]])
             @ scan [] rest)"

definition tokens :: "string \<Rightarrow> string list" where
  "tokens text = scan [] text"

text \<open>Keywords of SQLite that cannot stand for a name, in lower case.\<close>

definition reserved_words :: "string list" where
  "reserved_words =
     [''add'', ''all'', ''alter'', ''and'', ''as'', ''autoincrement'', ''between'', ''case'',
      ''check'', ''collate'', ''commit'', ''constraint'', ''create'', ''default'',
      ''deferrable'', ''delete'', ''distinct'', ''drop'', ''else'', ''escape'', ''except'',
      ''exists'', ''foreign'', ''from'', ''group'', ''having'', ''in'', ''index'', ''insert'',
      ''intersect'', ''into'', ''is'', ''isnull'', ''join'', ''limit'', ''not'', ''nothing'',
      ''notnull'', ''null'', ''on'', ''or'', ''order'', ''primary'', ''references'',
      ''returning'', ''select'', ''set'', ''table'', ''then'', ''to'', ''transaction'',
      ''union'', ''unique'', ''update'', ''using'', ''values'', ''when'', ''where'']"

text \<open>A plain name is a word that does not begin with a digit and is not reserved. The
  argument of a \<open>PRAGMA\<close> may also be one of three keywords.\<close>

definition plain_name :: "string \<Rightarrow> bool" where
  "plain_name n =
     (if n = [] then False
      else if digit_char (hd n) then False
      else if list_all word_char n then map ascii_lower n \<notin> set reserved_words
      else False)"

definition pragma_name :: "string \<Rightarrow> bool" where
  "pragma_name n =
     (if map ascii_lower n \<in> set [''on'', ''delete'', ''default''] then True else plain_name n)"

text \<open>The statements this engine understands, with the names found in them and, for an
  \<open>INSERT\<close>, the number of placeholders.\<close>

datatype request =
    TableInfo string
  | SelectAll string
  | DeleteAll string
  | InsertInto string "string list" nat

text \<open>A list of items separated by commas and closed by a parenthesis, with the tokens
  that follow it.\<close>

fun comma_list :: "string list \<Rightarrow> (string list \<times> string list) option" where
  "comma_list (x # sep # rest) =
     (if sep = '')'' then Some ([x], rest)
      else if sep = '','' then map_option (\<lambda>(xs, r). (x # xs, r)) (comma_list rest)
      else None)"
| "comma_list _ = None"

fun parse_pragma :: "string list \<Rightarrow> request option" where
  "parse_pragma [k, lp, n, rp] =
     (if k = ''table_info'' \<and> lp = ''('' \<and> rp = '')''
      then (if pragma_name n then Some (TableInfo n) else None)
      else None)"
| "parse_pragma _ = None"

fun parse_select :: "string list \<Rightarrow> request option" where
  "parse_select [star, k, n] =
     (if star = ''*'' \<and> k = ''FROM''
      then (if plain_name n then Some (SelectAll n) else None)
      else None)"
| "parse_select _ = None"

fun parse_delete :: "string list \<Rightarrow> request option" where
  "parse_delete [k, n] =
     (if k = ''FROM'' then (if plain_name n then Some (DeleteAll n) else None) else None)"
| "parse_delete _ = None"

text \<open>An \<open>INSERT\<close>: the table, the column list, \<open>VALUES\<close>, and as many placeholders
  as columns.\<close>

definition checked_insert :: "string \<Rightarrow> string list \<Rightarrow> string list \<Rightarrow> request option" where
  "checked_insert n cols phs =
     (if list_all (\<lambda>p. p = ''?'') phs \<and> length phs = length cols
      then (if plain_name n
            then (if list_all plain_name cols then Some (InsertInto n cols (length phs))
                  else None)
            else None)
      else None)"

fun parse_values :: "string \<Rightarrow> string list \<Rightarrow> string list \<Rightarrow> request option" where
  "parse_values n cols (k # lp # rest) =
     (if k = ''VALUES'' \<and> lp = ''(''
      then (case comma_list rest of
              None \<Rightarrow> None
            | Some (phs, rest2) \<Rightarrow> if rest2 = [] then checked_insert n cols phs else None)
      else None)"
| "parse_values n cols _ = None"

fun parse_insert :: "string list \<Rightarrow> request option" where
  "parse_insert (k # n # lp # rest) =
     (if k = ''INTO'' \<and> lp = ''(''
      then (case comma_list rest of
              None \<Rightarrow> None
            | Some (cols, rest2) \<Rightarrow> parse_values n cols rest2)
      else None)"
| "parse_insert _ = None"

fun parse_tokens :: "string list \<Rightarrow> request option" where
  "parse_tokens [] = None"
| "parse_tokens (k # rest) =
     (if k = ''PRAGMA'' then parse_pragma rest
      else if k = ''SELECT'' then parse_select rest
      else if k = ''DELETE'' then parse_delete rest
      else if k = ''INSERT'' then parse_insert rest
      else None)"

definition parse :: "string \<Rightarrow> request option" where
  "parse text = parse_tokens (tokens text)"

text \<open>Tables are found by name, without regard to letter case.\<close>

fun lookup_table :: "string \<Rightarrow> dbobject list \<Rightarrow> dbobject option" where
  "lookup_table n [] = None"
| "lookup_table n (ob # obs) =
     (if obj_type ob = OTable \<and> map ascii_lower (obj_name ob) = map ascii_lower n then Some ob
      else lookup_table n obs)"

fun store_rows :: "string \<Rightarrow> string list list \<Rightarrow> dbobject list \<Rightarrow> dbobject list" where
  "store_rows n rs [] = []"
| "store_rows n rs (ob # obs) =
     (if obj_type ob = OTable \<and> map ascii_lower (obj_name ob) = map ascii_lower n
      then ob\<lparr>obj_rows := rs\<rparr> # obs
      else ob # store_rows n rs obs)"

text \<open>The columns that hold a value of their own, and the rows of \<open>PRAGMA table_info\<close>:
  index, name, declared type, not-null flag, default value and key flag of each of
  them.\<close>

definition stored_columns :: "dbobject \<Rightarrow> string list" where
  "stored_columns ob = filter (\<lambda>col. map_of (obj_generated ob) col = None) (obj_columns ob)"

definition table_info :: "dbobject \<Rightarrow> string list list" where
  "table_info ob =
     map (\<lambda>(i, n). [decimal i, n, [], ''0'', [], ''0'']) (enumerate 0 (stored_columns ob))"

definition known_columns :: "dbobject \<Rightarrow> string list \<Rightarrow> bool" where
  "known_columns ob cols =
     list_all (\<lambda>col. map ascii_lower col \<in> set (map (map ascii_lower) (stored_columns ob))) cols"

text \<open>The row an \<open>INSERT\<close> with column list \<open>cols\<close> and values \<open>vals\<close> adds: each stored
  column takes the value at the first position where the column list names it, and
  renders empty when the list does not name it; a generated column repeats the column it
  is computed from.\<close>

definition stored_value :: "string list \<Rightarrow> string list \<Rightarrow> string \<Rightarrow> string" where
  "stored_value cols vals col =
     (case map_of (zip (map (map ascii_lower) cols) vals) (map ascii_lower col) of
        Some v \<Rightarrow> v
      | None \<Rightarrow> [])"

definition insert_row :: "dbobject \<Rightarrow> string list \<Rightarrow> string list \<Rightarrow> string list" where
  "insert_row ob cols vals =
     map (\<lambda>col. case map_of (obj_generated ob) col of
                  None \<Rightarrow> stored_value cols vals col
                | Some src \<Rightarrow> stored_value cols vals src)
       (obj_columns ob)"

text \<open>What the engine answers to a request that reads, what it makes of the content
  for a request that writes, and which requests it compiles.\<close>

fun answer :: "request \<Rightarrow> dbobject list \<Rightarrow> string list list option" where
  "answer (TableInfo n) d =
     Some (case lookup_table n d of None \<Rightarrow> [] | Some ob \<Rightarrow> table_info ob)"
| "answer (SelectAll n) d = map_option obj_rows (lookup_table n d)"
| "answer (DeleteAll n) d = None"
| "answer (InsertInto n cols k) d = None"

fun perform :: "request \<Rightarrow> string list \<Rightarrow> dbobject list \<Rightarrow> dbobject list option" where
  "perform (DeleteAll n) vals d =
     (case lookup_table n d of None \<Rightarrow> None | Some ob \<Rightarrow> Some (store_rows n [] d))"
| "perform (InsertInto n cols k) vals d =
     (case lookup_table n d of
        None \<Rightarrow> None
      | Some ob \<Rightarrow>
          if known_columns ob cols \<and> length vals = k
          then Some (store_rows n (obj_rows ob @ [insert_row ob cols vals]) d)
          else None)"
| "perform (TableInfo n) vals d = None"
| "perform (SelectAll n) vals d = None"

fun accepted :: "request \<Rightarrow> dbobject list \<Rightarrow> bool" where
  "accepted (TableInfo n) d = True"
| "accepted (SelectAll n) d = (lookup_table n d \<noteq> None)"
| "accepted (DeleteAll n) d = (lookup_table n d \<noteq> None)"
| "accepted (InsertInto n cols k) d =
     (case lookup_table n d of None \<Rightarrow> False | Some ob \<Rightarrow> known_columns ob cols)"

definition plain_query :: "string \<Rightarrow> dbobject list \<Rightarrow> string list list option" where
  "plain_query text d = (case parse text of None \<Rightarrow> None | Some r \<Rightarrow> answer r d)"

definition plain_update ::
  "string \<Rightarrow> string list \<Rightarrow> dbobject list \<Rightarrow> dbobject list option" where
  "plain_update text vals d = (case parse text of None \<Rightarrow> None | Some r \<Rightarrow> perform r vals d)"

definition plain_prepare :: "string \<Rightarrow> dbobject list \<Rightarrow> bool" where
  "plain_prepare text d = (case parse text of None \<Rightarrow> False | Some r \<Rightarrow> accepted r d)"

definition plain_engine :: engine where
  "plain_engine =
     \<lparr>eng_query = plain_query, eng_update = plain_update, eng_prepare = plain_prepare\<rparr>"

section \<open>Example data\<close>

text \<open>The worker as its constructor leaves it, with the engine's fault schedule \<open>fl\<close>;
  a file \<open>shop.db\<close> holding the table \<open>users(id, name)\<close>; and an edited grid for it.\<close>

definition SQLWorker :: "bool list \<Rightarrow> worker" where
  "SQLWorker fl =
     \<lparr>CurrentFilePath = [], AvailableTableNames = [], FileLoaded = False,
      SqlDatabase = \<lparr>is_open = False, durable = [], pending = None, faults = fl, calls = []\<rparr>\<rparr>"

definition users_table :: dbobject where
  "users_table =
     \<lparr>obj_type = OTable, obj_name = ''users'', obj_columns = [''id'', ''name''],
      obj_generated = [], obj_rows = [[''1'', ''Ann''], [''2'', ''Bo'']]\<rparr>"

definition shop_fs :: "string \<Rightarrow> dbobject list option" where
  "shop_fs path = (if path = ''shop.db'' then Some [users_table] else None)"

definition shop_worker :: "bool list \<Rightarrow> worker" where
  "shop_worker fl = snd (LoadSQLFile plain_engine shop_fs ''shop.db'' (SQLWorker fl))"

definition edited_grid :: table_widget where
  "edited_grid =
     \<lparr>hheader = [Some ''id'', Some ''name''],
      cells = [[Some ''1'', Some ''Anna''], [Some ''2'', Some ''Bo''], [Some ''3'', Some ''Cy'']]\<rparr>"

text \<open>A file \<open>ledger.db\<close> that also holds the engine's own table \<open>sqlite_sequence\<close>,
  and a grid for that table.\<close>

definition sequence_table :: dbobject where
  "sequence_table =
     \<lparr>obj_type = OTable, obj_name = ''sqlite_sequence'', obj_columns = [''name'', ''seq''],
      obj_generated = [], obj_rows = [[''users'', ''2'']]\<rparr>"

definition ledger_fs :: "string \<Rightarrow> dbobject list option" where
  "ledger_fs path = (if path = ''ledger.db'' then Some [users_table, sequence_table] else None)"

definition ledger_worker :: worker where
  "ledger_worker = snd (LoadSQLFile plain_engine ledger_fs ''ledger.db'' (SQLWorker []))"

definition sequence_grid :: table_widget where
  "sequence_grid =
     \<lparr>hheader = [Some ''name'', Some ''seq''], cells = [[Some ''users'', Some ''7'']]\<rparr>"

text \<open>A file \<open>names.db\<close> with a table whose name is empty, a table named \<open>sqlitex\<close>
  and an index.\<close>

definition names_db :: "dbobject list" where
  "names_db =
     [users_table,
      sequence_table,
      \<lparr>obj_type = OTable, obj_name = [], obj_columns = [''a''], obj_generated = [],
       obj_rows = []\<rparr>,
      \<lparr>obj_type = OTable, obj_name = ''sqlitex'', obj_columns = [''a''], obj_generated = [],
       obj_rows = []\<rparr>,
      \<lparr>obj_type = OIndex, obj_name = ''users_by_name'', obj_columns = [], obj_generated = [],
       obj_rows = []\<rparr>]"

definition names_fs :: "string \<Rightarrow> dbobject list option" where
  "names_fs path = (if path = ''names.db'' then Some names_db else None)"




text \<open>Grids for \<open>users\<close>: one without a header item for its first column and without
  an item in one cell, one without rows, and one with its two columns swapped.\<close>

definition partial_header_grid :: table_widget where
  "partial_header_grid =
     \<lparr>hheader = [None, Some ''name''], cells = [[Some ''7'', Some ''Di''], [None, Some ''Ed'']]\<rparr>"








section \<open>Equations for evaluation\<close>

text \<open>The character tests and the decimal rendering in a form that evaluates fast:
  computed on the bits of a character (lowest bit first) and by a table of digits. Each
  equation is proved from the definition.\<close>

lemma ascii_lower_code [code]:
  "ascii_lower (Char b0 b1 b2 b3 b4 b5 b6 b7) =
     (if \<not> b7 \<and> b6 \<and> \<not> b5 \<and> (b0 \<or> b1 \<or> b2 \<or> b3 \<or> b4)
           \<and> \<not> (b4 \<and> b3 \<and> (b2 \<or> (b1 \<and> b0)))
      then Char b0 b1 b2 b3 b4 True b6 b7
      else Char b0 b1 b2 b3 b4 b5 b6 b7)"
  by (cases b0; cases b1; cases b2; cases b3; cases b4; cases b5; cases b6; cases b7;
      simp add: ascii_lower_def char_of_eq_iff)

lemma word_char_code [code]:
  "word_char (Char b0 b1 b2 b3 b4 b5 b6 b7) =
     (\<not> b7 \<and> ((b6 \<and> (b0 \<or> b1 \<or> b2 \<or> b3 \<or> b4) \<and> \<not> (b4 \<and> b3 \<and> (b2 \<or> (b1 \<and> b0))))
             \<or> (\<not> b6 \<and> b5 \<and> b4 \<and> (\<not> b3 \<or> (\<not> b2 \<and> \<not> b1)))
             \<or> (b6 \<and> \<not> b5 \<and> b4 \<and> b3 \<and> b2 \<and> b1 \<and> b0)))"
  by (cases b0; cases b1; cases b2; cases b3; cases b4; cases b5; cases b6; cases b7;
      simp add: word_char_def)

lemma digit_table:
  "list_all (\<lambda>n. char_of (48 + n) = ''0123456789'' ! n) [0..<10]"
  by code_simp

lemma digit_of: "n < 10 \<Longrightarrow> char_of (48 + n) = ''0123456789'' ! n"
  using digit_table by (simp add: list_all_iff)

lemma decimal_code [code]:
  "decimal n =
     (if n < 10 then [''0123456789'' ! n]
      else decimal (n div 10) @ [''0123456789'' ! (n mod 10)])"
  by (subst decimal.simps) (simp add: digit_of)

section \<open>The engine inside a transaction\<close>

text \<open>The text of a statement is kept folded in what follows.\<close>

declare sql_text.simps [simp del]

text \<open>While a transaction is open, no call of the worker touches the file itself, and
  none but \<open>commit\<close> and \<open>rollback\<close> ends the transaction.\<close>

lemma engine_call_keeps:
  "engine_call k c = (f, c') \<Longrightarrow>
     durable c' = durable c \<and> pending c' = pending c \<and> is_open c' = is_open c"
  by (auto simp: engine_call_def split: list.splits)

lemma engine_call_calls:
  "engine_call k c = (f, c') \<Longrightarrow> calls c' = calls c @ [k]"
  by (auto simp: engine_call_def split: list.splits)

lemma engine_call_faults:
  "engine_call k c = (f, c') \<Longrightarrow> faults c' = drop 1 (faults c)"
  by (auto simp: engine_call_def split: list.splits)

lemma transaction_False:
  "transaction c = (False, c') \<Longrightarrow>
     durable c' = durable c \<and> pending c' = pending c \<and> is_open c' = is_open c"
  by (auto simp: transaction_def split: prod.splits if_splits dest: engine_call_keeps)

lemma transaction_True:
  "transaction c = (True, c') \<Longrightarrow>
     pending c = None \<and> durable c' = durable c \<and> pending c' = Some (durable c) \<and> is_open c'"
  by (auto simp: transaction_def split: prod.splits if_splits dest: engine_call_keeps)

lemma run_on_in_transaction:
  "pending c \<noteq> None \<Longrightarrow> run_on E q vals c = (r, c') \<Longrightarrow>
     durable c' = durable c \<and> pending c' \<noteq> None \<and> is_open c' = is_open c"
  by (auto simp: run_on_def db_store_def split: option.splits prod.splits)

lemma exec_query_in_transaction:
  "pending c \<noteq> None \<Longrightarrow> exec_query E q c = (r, c') \<Longrightarrow>
     durable c' = durable c \<and> pending c' \<noteq> None \<and> is_open c' = is_open c"
  unfolding exec_query_def
  by (auto split: prod.splits if_splits dest!: engine_call_keeps run_on_in_transaction[rotated])

lemma exec_prepared_in_transaction:
  "pending c \<noteq> None \<Longrightarrow> exec_prepared E q vals c = (r, c') \<Longrightarrow>
     durable c' = durable c \<and> pending c' \<noteq> None \<and> is_open c' = is_open c"
  unfolding exec_prepared_def
  by (auto split: prod.splits if_splits dest!: engine_call_keeps run_on_in_transaction[rotated])

lemma prepare_query_keeps:
  "prepare_query E q c = (r, c') \<Longrightarrow>
     durable c' = durable c \<and> pending c' = pending c \<and> is_open c' = is_open c"
  by (auto simp: prepare_query_def split: prod.splits dest: engine_call_keeps)

lemma rollback_fields [simp]:
  "durable (rollback c) = durable c" "pending (rollback c) = None"
  "is_open (rollback c) = is_open c"
  by (simp_all add: rollback_def)

lemma commit_False:
  "commit c = (False, c') \<Longrightarrow> durable c' = durable c"
  by (auto simp: commit_def split: prod.splits if_splits option.splits dest: engine_call_keeps)

lemma GetTableColumns_in_transaction:
  "pending c \<noteq> None \<Longrightarrow> GetTableColumns E t c = (cols, c') \<Longrightarrow>
     durable c' = durable c \<and> pending c' \<noteq> None \<and> is_open c' = is_open c"
proof -
  assume a: "pending c \<noteq> None" and g: "GetTableColumns E t c = (cols, c')"
  obtain r c1 where e: "exec_query E (GET_COLUMNS_QUERY t) c = (r, c1)"
    by (cases "exec_query E (GET_COLUMNS_QUERY t) c")
  with g have "c' = c1" by (auto simp: GetTableColumns_def split: option.splits)
  with exec_query_in_transaction[OF a e] show ?thesis by simp
qed

lemma column_names_loop_in_transaction:
  "pending c \<noteq> None \<Longrightarrow> column_names_loop E t w ns acc c = (cols, c') \<Longrightarrow>
     durable c' = durable c \<and> pending c' \<noteq> None \<and> is_open c' = is_open c"
proof (induction ns arbitrary: acc c)
  case Nil
  then show ?case by simp
next
  case (Cons n ns)
  show ?case
  proof (cases "horizontalHeaderItem w n")
    case (Some label)
    with Cons show ?thesis by simp
  next
    case None
    obtain dbc c1 where g: "GetTableColumns E t c = (dbc, c1)" by (cases "GetTableColumns E t c")
    from GetTableColumns_in_transaction[OF Cons.prems(1) g]
    have k: "durable c1 = durable c" "pending c1 \<noteq> None" "is_open c1 = is_open c" by auto
    from Cons.prems(2) None g
    obtain acc' where "column_names_loop E t w ns acc' c1 = (cols, c')"
      by (auto split: if_splits)
    from Cons.IH[OF k(2) this] k show ?thesis by simp
  qed
qed

text \<open>The row loop leaves the transaction open exactly when it reports success.\<close>

lemma insert_rows_loop_in_transaction:
  "pending c \<noteq> None \<Longrightarrow> insert_rows_loop E q w rs c = (ok, c') \<Longrightarrow>
     durable c' = durable c \<and> (pending c' = None) = (\<not> ok)"
proof (induction rs arbitrary: c)
  case Nil
  then show ?case by auto
next
  case (Cons r rs)
  obtain p c1 where p: "prepare_query E q c = (p, c1)" by (cases "prepare_query E q c")
  from prepare_query_keeps[OF p] Cons.prems(1)
  have k1: "durable c1 = durable c" "pending c1 \<noteq> None" by auto
  show ?case
  proof (cases p)
    case False
    with Cons.prems(2) p k1 show ?thesis by auto
  next
    case True
    obtain e c2 where e: "exec_prepared E q (row_values w r) c1 = (e, c2)"
      by (cases "exec_prepared E q (row_values w r) c1")
    from exec_prepared_in_transaction[OF k1(2) e]
    have k2: "durable c2 = durable c1" "pending c2 \<noteq> None" by auto
    show ?thesis
    proof (cases e)
      case None
      with Cons.prems(2) p True e k1 k2 show ?thesis by auto
    next
      case (Some rows)
      with Cons.prems(2) p True e have "insert_rows_loop E q w rs c2 = (ok, c')" by simp
      from Cons.IH[OF k2(2) this] k1 k2 show ?thesis by simp
    qed
  qed
qed

lemma replace_rows_False:
  assumes "replace_rows E t w c = (False, c')"
  shows "durable c' = durable c \<and> pending c' = pending c"
proof (cases "transaction c")
  case (Pair ok1 c1)
  show ?thesis
  proof (cases ok1)
    case False
    with Pair assms have "c' = c1" by (simp add: replace_rows_def)
    with transaction_False[of c c1] Pair False show ?thesis by simp
  next
    case True
    with Pair transaction_True[of c c1]
    have t: "pending c = None" "durable c1 = durable c" "pending c1 \<noteq> None" by auto
    obtain r2 c2 where d: "exec_query E (DELETE_ALL_QUERY t) c1 = (r2, c2)"
      by (cases "exec_query E (DELETE_ALL_QUERY t) c1")
    from exec_query_in_transaction[OF t(3) d]
    have k2: "durable c2 = durable c1" "pending c2 \<noteq> None" by auto
    show ?thesis
    proof (cases r2)
      case None
      with Pair True d assms have "c' = rollback c2" by (simp add: replace_rows_def)
      with t k2 show ?thesis by simp
    next
      case (Some rows2)
      obtain cols c3 where n: "column_names_loop E t w [0..<columnCount w] [] c2 = (cols, c3)"
        by (cases "column_names_loop E t w [0..<columnCount w] [] c2")
      from column_names_loop_in_transaction[OF k2(2) n]
      have k3: "durable c3 = durable c2" "pending c3 \<noteq> None" by auto
      define q where "q = INSERT_QUERY_TEMPLATE t cols (replicate (length cols) ''?'')"
      obtain p c4 where p: "prepare_query E q c3 = (p, c4)" by (cases "prepare_query E q c3")
      from prepare_query_keeps[OF p] k3
      have k4: "durable c4 = durable c3" "pending c4 \<noteq> None" by auto
      show ?thesis
      proof (cases p)
        case False
        with Pair True d Some n p assms have "c' = rollback c4"
          by (simp add: replace_rows_def q_def)
        with t k2 k3 k4 show ?thesis by simp
      next
        case pT: True
        obtain ok5 c5 where l: "insert_rows_loop E q w [0..<rowCount w] c4 = (ok5, c5)"
          by (cases "insert_rows_loop E q w [0..<rowCount w] c4")
        from insert_rows_loop_in_transaction[OF k4(2) l]
        have k5: "durable c5 = durable c4" "(pending c5 = None) = (\<not> ok5)" by auto
        show ?thesis
        proof (cases ok5)
          case False
          with Pair True d Some n p pT l assms have "c' = c5"
            by (simp add: replace_rows_def q_def)
          with t k2 k3 k4 k5 False show ?thesis by simp
        next
          case lT: True
          obtain ok6 c6 where c: "commit c5 = (ok6, c6)" by (cases "commit c5")
          with Pair True d Some n p pT l lT assms
          have "ok6 = False" "c' = rollback c6"
            by (auto simp add: replace_rows_def q_def split: bool.splits)
          with c commit_False[of c5 c6] t k2 k3 k4 k5 show ?thesis by simp
        qed
      qed
    qed
  qed
qed

section \<open>Committing a grid: failure\<close>

text \<open>
  Claim C1. Whenever \<open>UpdateCompleteTable\<close> returns \<open>False\<close>, for whatever reason (a
  parameter check, a transaction that cannot start, a failed delete, a failed prepare or
  insert of any row, a failed commit), the content of the file is what it was before the
  call, and so is the state of the transaction: no deletion and no inserted row remains.
\<close>

theorem failed_commit_leaves_storage_unchanged:
  assumes "UpdateCompleteTable E tableName tableWidget s = (False, s')"
  shows "durable (SqlDatabase s') = durable (SqlDatabase s)
       \<and> pending (SqlDatabase s') = pending (SqlDatabase s)"
  using assms replace_rows_False
  by (auto simp: UpdateCompleteTable_def split: option.splits if_splits prod.splits)

text \<open>The insert of row 1 of the three-row grid fails (the twelfth call to the engine
  since the worker was created; five calls load the file): the commit rolls back.\<close>

theorem failed_commit_leaves_storage_unchanged_witness:
  "fst (UpdateCompleteTable plain_engine ''users'' (Some edited_grid)
          (shop_worker (replicate 11 False @ [True]))) = False
   \<and> durable (SqlDatabase (snd (UpdateCompleteTable plain_engine ''users'' (Some edited_grid)
          (shop_worker (replicate 11 False @ [True]))))) = [users_table]
   \<and> durable (SqlDatabase (shop_worker (replicate 11 False @ [True]))) = [users_table]
   \<and> drop 5 (calls (SqlDatabase (snd (UpdateCompleteTable plain_engine ''users'' (Some edited_grid)
          (shop_worker (replicate 11 False @ [True]))))))
       = [Transaction, Exec (DELETE_ALL_QUERY ''users''),
          Prepare (insert_statement ''users'' [''id'', ''name'']),
          Prepare (insert_statement ''users'' [''id'', ''name'']),
          ExecPrepared (insert_statement ''users'' [''id'', ''name'']) [''1'', ''Anna''],
          Prepare (insert_statement ''users'' [''id'', ''name'']),
          ExecPrepared (insert_statement ''users'' [''id'', ''name'']) [''2'', ''Bo''],
          Rollback]"
proof -
  let ?s = "shop_worker (replicate 11 False @ [True])"
  let ?r = "UpdateCompleteTable plain_engine ''users'' (Some edited_grid) ?s"
  have f: "fst ?r = False" by code_simp
  have d: "durable (SqlDatabase ?s) = [users_table]" by code_simp
  have l: "drop 5 (calls (SqlDatabase (snd ?r)))
       = [Transaction, Exec (DELETE_ALL_QUERY ''users''),
          Prepare (insert_statement ''users'' [''id'', ''name'']),
          Prepare (insert_statement ''users'' [''id'', ''name'']),
          ExecPrepared (insert_statement ''users'' [''id'', ''name'']) [''1'', ''Anna''],
          Prepare (insert_statement ''users'' [''id'', ''name'']),
          ExecPrepared (insert_statement ''users'' [''id'', ''name'']) [''2'', ''Bo''],
          Rollback]" by code_simp
  from f have "?r = (False, snd ?r)" by (simp add: prod_eq_iff)
  from failed_commit_leaves_storage_unchanged[OF this] f d l show ?thesis by simp
qed

text \<open>
  Claim C6. Called with no file loaded, with an empty table name, with no grid, or on a
  closed connection, \<open>UpdateCompleteTable\<close> returns \<open>False\<close> and leaves the worker and its
  connection exactly as they were: no call reaches the engine, so no transaction is
  started and no statement is executed.
\<close>

theorem commit_rejects_invalid_request:
  "\<not> FileLoaded s \<or> tableName = [] \<or> tableWidget = None \<or> \<not> is_open (SqlDatabase s)
   \<Longrightarrow> UpdateCompleteTable E tableName tableWidget s = (False, s)"
  by (auto simp: UpdateCompleteTable_def split: option.splits)

theorem commit_rejects_invalid_request_witness:
  "FileLoaded (SQLWorker []) = False
   \<and> UpdateCompleteTable plain_engine ''users'' (Some edited_grid) (SQLWorker []) = (False, SQLWorker [])"
proof -
  have h: "\<not> FileLoaded (SQLWorker []) \<or> ''users'' = [] \<or> Some edited_grid = None
      \<or> \<not> is_open (SqlDatabase (SQLWorker []))"
    by (simp add: SQLWorker_def)
  have "FileLoaded (SQLWorker []) = False" by (simp add: SQLWorker_def)
  with commit_rejects_invalid_request[OF h] show ?thesis by simp
qed

section \<open>Loading a file\<close>

lemma open_db_False: "open_db fs p c = (False, c') \<Longrightarrow> is_open c' = is_open c"
  by (auto simp: open_db_def split: prod.splits option.splits if_splits dest: engine_call_keeps)

lemma open_db_True:
  "open_db fs p c = (True, c') \<Longrightarrow>
     is_open c' \<and> pending c' = None \<and> fs p = Some (durable c') \<and> faults c' = drop 1 (faults c)"
  by (auto simp: open_db_def split: prod.splits option.splits if_splits
      dest: engine_call_faults)

lemma run_on_TEST_QUERY: "run_on E TEST_QUERY vals c = (Some [[''1'']], c)"
  by (simp add: run_on_def db_store_def db_view_def split: option.splits)

lemma ValidateDatabaseConnection_True:
  assumes "ValidateDatabaseConnection E c = (True, c')"
  shows "is_open c' \<and> pending c' = pending c \<and> durable c' = durable c
       \<and> faults c' = drop 2 (faults c)"
proof -
  from assms have o: "is_open c"
    by (auto simp: ValidateDatabaseConnection_def split: if_splits)
  obtain f1 c1 where 1: "engine_call (Exec TEST_QUERY) c = (f1, c1)"
    by (cases "engine_call (Exec TEST_QUERY) c")
  obtain f2 c2 where 2: "engine_call (ExecPrepared TEST_QUERY []) c1 = (f2, c2)"
    by (cases "engine_call (ExecPrepared TEST_QUERY []) c1")
  from assms o 1 2 have "c' = c2"
    by (auto simp: ValidateDatabaseConnection_def construct_and_exec_def exec_query_def
          exec_prepared_def run_on_TEST_QUERY split: if_splits option.splits prod.splits)
  with engine_call_keeps[OF 1] engine_call_keeps[OF 2] engine_call_faults[OF 1]
    engine_call_faults[OF 2] o
  show ?thesis by (simp add: eval_nat_numeral)
qed

subsection \<open>The filter of the table query\<close>

lemma sql_like_percent: "sql_like ''%'' s"
  by (induction s) simp_all

lemma sql_like_reserved: "prefix ''sqlite_'' n \<Longrightarrow> sql_like ''sqlite_%'' n"
  by (auto simp: prefix_def sql_like_percent)

lemma sql_like_literal:
  "sql_like (p # ps) s \<Longrightarrow> p \<noteq> CHR ''%'' \<Longrightarrow>
     \<exists>c cs. s = c # cs \<and> (p = CHR ''_'' \<or> ascii_lower p = ascii_lower c) \<and> sql_like ps cs"
  by (cases s) (auto split: if_splits)

lemma sql_like_sqlite:
  assumes "sql_like ''sqlite_%'' n"
  shows "map ascii_lower (take 6 n) = ''sqlite''"
proof -
  from sql_like_literal[OF assms] obtain c1 n1 where
    1: "n = c1 # n1" "ascii_lower c1 = CHR ''s''" "sql_like ''qlite_%'' n1"
    by (auto simp: ascii_lower_def)
  from sql_like_literal[OF 1(3)] obtain c2 n2 where
    2: "n1 = c2 # n2" "ascii_lower c2 = CHR ''q''" "sql_like ''lite_%'' n2"
    by (auto simp: ascii_lower_def)
  from sql_like_literal[OF 2(3)] obtain c3 n3 where
    3: "n2 = c3 # n3" "ascii_lower c3 = CHR ''l''" "sql_like ''ite_%'' n3"
    by (auto simp: ascii_lower_def)
  from sql_like_literal[OF 3(3)] obtain c4 n4 where
    4: "n3 = c4 # n4" "ascii_lower c4 = CHR ''i''" "sql_like ''te_%'' n4"
    by (auto simp: ascii_lower_def)
  from sql_like_literal[OF 4(3)] obtain c5 n5 where
    5: "n4 = c5 # n5" "ascii_lower c5 = CHR ''t''" "sql_like ''e_%'' n5"
    by (auto simp: ascii_lower_def)
  from sql_like_literal[OF 5(3)] obtain c6 n6 where
    6: "n5 = c6 # n6" "ascii_lower c6 = CHR ''e''" "sql_like ''_%'' n6"
    by (auto simp: ascii_lower_def)
  from 1 2 3 4 5 6 show ?thesis by simp
qed

lemma table_names_loop_eq:
  "table_names_loop (map (\<lambda>ob. [obj_name ob]) obs) acc
     = acc @ filter (\<lambda>n. n \<noteq> []) (map obj_name obs)"
  by (induction obs arbitrary: acc) (auto simp: value_at_def)

lemma ParseSQLStructure_names:
  assumes "is_open (SqlDatabase s)"
  shows "AvailableTableNames (ParseSQLStructure E s) =
           (if True \<in> set (take 2 (faults (SqlDatabase s))) then []
            else listed_names (db_view (SqlDatabase s)))"
proof (cases "faults (SqlDatabase s)")
  case Nil
  with assms show ?thesis
    by (simp add: ParseSQLStructure_def construct_and_exec_def exec_query_def exec_prepared_def
          engine_call_def run_on_def db_view_def db_store_def table_names_loop_eq listed_names_def
          split: option.splits)
next
  case (Cons f1 fs)
  show ?thesis
  proof (cases fs)
    case Nil
    with Cons assms show ?thesis
      by (simp add: ParseSQLStructure_def construct_and_exec_def exec_query_def exec_prepared_def
          engine_call_def run_on_def db_view_def db_store_def table_names_loop_eq listed_names_def
          split: option.splits)
  next
    case (Cons f2 fs2)
    with \<open>faults (SqlDatabase s) = f1 # fs\<close> assms show ?thesis
      by (simp add: ParseSQLStructure_def construct_and_exec_def exec_query_def exec_prepared_def
          engine_call_def run_on_def db_view_def db_store_def table_names_loop_eq listed_names_def
          split: option.splits)
  qed
qed

lemma listed_names_props:
  "subseq (listed_names d) (table_names d)"
  "n \<in> set (listed_names d) \<Longrightarrow> n \<noteq> [] \<and> \<not> prefix ''sqlite_'' n"
  "n \<in> set (table_names d) \<Longrightarrow> n \<noteq> [] \<Longrightarrow> map ascii_lower (take 6 n) \<noteq> ''sqlite''
     \<Longrightarrow> n \<in> set (listed_names d)"
proof -
  have "subseq (map obj_name (filter (\<lambda>ob. obj_type ob = OTable \<and> \<not> sql_like ''sqlite_%'' (obj_name ob)) d))
          (table_names d)"
    unfolding table_names_def
    by (induction d) auto
  then show "subseq (listed_names d) (table_names d)"
    unfolding listed_names_def
    by (rule subseq_order.trans[OF subseq_filter_left])
  show "n \<in> set (listed_names d) \<Longrightarrow> n \<noteq> [] \<and> \<not> prefix ''sqlite_'' n"
    by (auto simp: listed_names_def dest: sql_like_reserved)
  show "n \<in> set (table_names d) \<Longrightarrow> n \<noteq> [] \<Longrightarrow> map ascii_lower (take 6 n) \<noteq> ''sqlite''
     \<Longrightarrow> n \<in> set (listed_names d)"
    by (auto simp: listed_names_def table_names_def dest: sql_like_sqlite)
qed

lemma LoadSQLFile_True:
  assumes "LoadSQLFile E fs filePath s = (True, s')" and "fs filePath = Some d"
  shows "GetTableNames s' = (if tables_query_fails s then [] else listed_names d)"
proof -
  define cnew where "cnew =
    (if is_open (SqlDatabase s) then close_db (SqlDatabase s) else SqlDatabase s)
      \<lparr>is_open := False, durable := [], pending := None\<rparr>"
  have fn: "faults cnew = faults (SqlDatabase s)"
    by (simp add: cnew_def close_db_def)
  from assms(1) obtain c1 c2 where
    o: "open_db fs filePath cnew = (True, c1)" and
    v: "ValidateDatabaseConnection E c1 = (True, c2)" and
    s': "s' = (ParseSQLStructure E (s\<lparr>SqlDatabase := c2, CurrentFilePath := filePath\<rparr>))\<lparr>FileLoaded := True\<rparr>"
    by (auto simp: LoadSQLFile_def cnew_def Let_def split: if_splits prod.splits bool.splits)
  from open_db_True[OF o] assms(2) ValidateDatabaseConnection_True[OF v] fn
  have c2: "is_open c2" "db_view c2 = d" "faults c2 = drop 3 (faults (SqlDatabase s))"
    by (auto simp: db_view_def eval_nat_numeral)
  from c2 show ?thesis
    using ParseSQLStructure_names[of "s\<lparr>SqlDatabase := c2, CurrentFilePath := filePath\<rparr>"]
    by (simp add: s' GetTableNames_def tables_query_fails_def)
qed

text \<open>
  Claim C7, as amended. After a successful \<open>LoadSQLFile\<close> of a file with content \<open>d\<close>,
  \<open>GetTableNames\<close> returns names of tables of \<open>d\<close> in the order of \<open>sqlite_master\<close>; none
  of them is empty and none begins with the reserved prefix \<open>sqlite_\<close>; it is empty when the
  table query fails; and when the query succeeds, every table whose name is not empty and
  does not begin with the letters \<open>sqlite\<close> in any letter case is among them.
\<close>

theorem listed_tables_after_load:
  assumes "LoadSQLFile E fs filePath s = (True, s')" and "fs filePath = Some d"
  shows "subseq (GetTableNames s') (table_names d)
       \<and> (\<forall>n \<in> set (GetTableNames s'). n \<noteq> [] \<and> \<not> prefix ''sqlite_'' n)
       \<and> (tables_query_fails s \<longrightarrow> GetTableNames s' = [])
       \<and> (\<not> tables_query_fails s \<longrightarrow>
            (\<forall>n \<in> set (table_names d).
               n \<noteq> [] \<and> map ascii_lower (take 6 n) \<noteq> ''sqlite'' \<longrightarrow> n \<in> set (GetTableNames s')))"
  using LoadSQLFile_True[OF assms] listed_names_props[where d = d]
  by auto

text \<open>The file \<open>names.db\<close> loads without a fault and lists \<open>users\<close>.\<close>

theorem listed_tables_after_load_witness:
  "fst (LoadSQLFile plain_engine names_fs ''names.db'' (SQLWorker [])) = True
   \<and> names_fs ''names.db'' = Some names_db
   \<and> tables_query_fails (SQLWorker []) = False
   \<and> ''users'' \<in> set (table_names names_db)
   \<and> ''users'' \<in> set (GetTableNames (snd (LoadSQLFile plain_engine names_fs ''names.db'' (SQLWorker []))))
   \<and> subseq (GetTableNames (snd (LoadSQLFile plain_engine names_fs ''names.db'' (SQLWorker []))))
        (table_names names_db)"
proof -
  let ?r = "LoadSQLFile plain_engine names_fs ''names.db'' (SQLWorker [])"
  have a: "fst ?r = True" by code_simp
  have b: "names_fs ''names.db'' = Some names_db" by (simp add: names_fs_def)
  have c: "tables_query_fails (SQLWorker []) = False"
    by (simp add: tables_query_fails_def SQLWorker_def)
  have d: "''users'' \<in> set (table_names names_db)" by code_simp
  have e: "map ascii_lower (take 6 ''users'') \<noteq> ''sqlite''" by simp
  from a have "?r = (True, snd ?r)" by (simp add: prod_eq_iff)
  from listed_tables_after_load[OF this b] a b c d e show ?thesis by auto
qed

text \<open>Claim C7 as stated fails on \<open>names.db\<close>: of its three user-defined tables only
  \<open>users\<close> is listed. The table with the empty name is skipped by the loop, and \<open>sqlitex\<close>
  is excluded by the query, whose pattern \<open>sqlite_%\<close> lets \<open>_\<close> stand for any character.\<close>

theorem listed_tables_counterexample:
  "fst (LoadSQLFile plain_engine names_fs ''names.db'' (SQLWorker [])) = True
   \<and> GetTableNames (snd (LoadSQLFile plain_engine names_fs ''names.db'' (SQLWorker []))) = [''users'']
   \<and> user_defined_tables names_db = [''users'', [], ''sqlitex'']"
  by code_simp

text \<open>
  Claim C9, as amended. If \<open>LoadSQLFile\<close> returns \<open>False\<close> for a non-empty path, then
  afterwards \<open>IsFileLoaded\<close> is false, while \<open>GetTableNames\<close> and \<open>GetCurrentFilePath\<close>
  still give the table list and the path they gave before the call.
\<close>

theorem failed_load_keeps_stale_catalog:
  assumes "filePath \<noteq> []" and "LoadSQLFile E fs filePath s = (False, s')"
  shows "\<not> IsFileLoaded s' \<and> GetTableNames s' = GetTableNames s
       \<and> GetCurrentFilePath s' = GetCurrentFilePath s"
  using assms
  by (auto simp: LoadSQLFile_def IsFileLoaded_def GetTableNames_def GetCurrentFilePath_def
        close_db_def Let_def
      split: prod.splits bool.splits if_splits dest!: open_db_False)

text \<open>After \<open>shop.db\<close> was loaded, loading a file that cannot be opened fails.\<close>

theorem failed_load_keeps_stale_catalog_witness:
  "fst (LoadSQLFile plain_engine shop_fs ''shop.db'' (SQLWorker [])) = True
   \<and> fst (LoadSQLFile plain_engine shop_fs ''missing.db'' (shop_worker [])) = False
   \<and> IsFileLoaded (snd (LoadSQLFile plain_engine shop_fs ''missing.db'' (shop_worker []))) = False
   \<and> GetTableNames (snd (LoadSQLFile plain_engine shop_fs ''missing.db'' (shop_worker []))) = [''users'']
   \<and> GetCurrentFilePath (snd (LoadSQLFile plain_engine shop_fs ''missing.db'' (shop_worker []))) = ''shop.db''"
proof -
  let ?r = "LoadSQLFile plain_engine shop_fs ''missing.db'' (shop_worker [])"
  have a: "fst (LoadSQLFile plain_engine shop_fs ''shop.db'' (SQLWorker [])) = True" by code_simp
  have f: "fst ?r = False" by code_simp
  have n: "GetTableNames (shop_worker []) = [''users'']" by code_simp
  have p: "GetCurrentFilePath (shop_worker []) = ''shop.db''" by code_simp
  from f have "?r = (False, snd ?r)" by (simp add: prod_eq_iff)
  from failed_load_keeps_stale_catalog[OF _ this] a f n p show ?thesis by simp
qed

text \<open>Claim C9 as stated fails for the empty path: the call returns \<open>False\<close> before the
  connection is touched, and the file loaded before stays loaded.\<close>

theorem failed_load_empty_path_counterexample:
  "fst (LoadSQLFile plain_engine shop_fs ''shop.db'' (SQLWorker [])) = True
   \<and> LoadSQLFile plain_engine shop_fs [] (shop_worker []) = (False, shop_worker [])
   \<and> IsFileLoaded (shop_worker []) = True"
proof -
  have a: "fst (LoadSQLFile plain_engine shop_fs ''shop.db'' (SQLWorker [])) = True" by code_simp
  have b: "IsFileLoaded (shop_worker []) = True" by code_simp
  show ?thesis using a b by (simp add: LoadSQLFile_def)
qed

section \<open>Committing under a name the catalog does not list\<close>

text \<open>
  Claim C3, as amended. \<open>UpdateCompleteTable\<close> does not consult the table list. Called
  with a file loaded, an open connection, a grid and a non-empty name for which the engine
  rejects the statement \<open>DELETE FROM <name>\<close>, as it does when it knows no table of that
  name, it returns \<open>False\<close> and leaves the content of the file and the state of the
  transaction unchanged; its calls to the engine are either the one failed attempt to start
  a transaction, or the start of a transaction, the statement \<open>DELETE FROM\<close> with that
  very name, and the rollback.
\<close>

theorem commit_unknown_table:
  assumes "FileLoaded s" and "tableName \<noteq> []" and "is_open (SqlDatabase s)"
    and "eng_update E (sql_text (DELETE_ALL_QUERY tableName)) [] (db_view (SqlDatabase s)) = None"
    and "UpdateCompleteTable E tableName (Some w) s = (ok, s')"
  shows "\<not> ok
       \<and> durable (SqlDatabase s') = durable (SqlDatabase s)
       \<and> pending (SqlDatabase s') = pending (SqlDatabase s)
       \<and> (calls (SqlDatabase s') = calls (SqlDatabase s) @ [Transaction]
          \<or> calls (SqlDatabase s') =
              calls (SqlDatabase s) @ [Transaction, Exec (DELETE_ALL_QUERY tableName), Rollback])"
  using assms
  by (auto simp: UpdateCompleteTable_def replace_rows_def transaction_def exec_query_def
        run_on_def engine_call_def db_view_def rollback_def
      split: list.splits if_splits option.splits)

text \<open>The file \<open>shop.db\<close> has no table \<open>ghost\<close>.\<close>

theorem commit_unknown_table_witness:
  "case UpdateCompleteTable plain_engine ''ghost'' (Some edited_grid) (shop_worker []) of
     (ok, s') \<Rightarrow>
       ok = False
       \<and> durable (SqlDatabase s') = [users_table]
       \<and> calls (SqlDatabase s')
           = calls (SqlDatabase (shop_worker []))
               @ [Transaction, Exec (DELETE_ALL_QUERY ''ghost''), Rollback]"
proof -
  let ?s = "shop_worker []"
  obtain ok s' where
    r: "UpdateCompleteTable plain_engine ''ghost'' (Some edited_grid) ?s = (ok, s')"
    by (cases "UpdateCompleteTable plain_engine ''ghost'' (Some edited_grid) ?s")
  have a: "FileLoaded ?s \<and> is_open (SqlDatabase ?s) \<and> durable (SqlDatabase ?s) = [users_table]
      \<and> eng_update plain_engine (sql_text (DELETE_ALL_QUERY ''ghost'')) []
            (db_view (SqlDatabase ?s)) = None"
    by code_simp
  have e: "case UpdateCompleteTable plain_engine ''ghost'' (Some edited_grid) ?s of
             (ok, s') \<Rightarrow> calls (SqlDatabase s')
               = calls (SqlDatabase ?s) @ [Transaction, Exec (DELETE_ALL_QUERY ''ghost''), Rollback]"
    by code_simp
  have n: "''ghost'' \<noteq> []" by simp
  from a commit_unknown_table[OF _ n _ _ r] have "\<not> ok"
    "durable (SqlDatabase s') = durable (SqlDatabase ?s)" by simp_all
  with a e r show ?thesis by simp
qed

text \<open>Claim C3 as stated fails on \<open>ledger.db\<close>, whose table list is \<open>users\<close> alone. The
  name \<open>ghost\<close> is not listed, and the call executes \<open>DELETE FROM ghost\<close>. The name
  \<open>sqlite_sequence\<close> is not listed either, and the call succeeds and changes the file.\<close>

theorem commit_unlisted_table_counterexample:
  "''ghost'' \<notin> set (GetTableNames ledger_worker)
   \<and> Exec (DELETE_ALL_QUERY ''ghost'')
       \<in> set (calls (SqlDatabase
                (snd (UpdateCompleteTable plain_engine ''ghost'' (Some sequence_grid)
                        ledger_worker))))
   \<and> sql_text (DELETE_ALL_QUERY ''ghost'') = ''DELETE FROM ghost''
   \<and> ''sqlite_sequence'' \<notin> set (GetTableNames ledger_worker)
   \<and> fst (UpdateCompleteTable plain_engine ''sqlite_sequence'' (Some sequence_grid)
             ledger_worker) = True
   \<and> durable (SqlDatabase
        (snd (UpdateCompleteTable plain_engine ''sqlite_sequence'' (Some sequence_grid)
                ledger_worker)))
       \<noteq> durable (SqlDatabase ledger_worker)"
  by code_simp

section \<open>Loading a table into the grid\<close>

subsection \<open>What the widget holds after the loading loop\<close>







subsection \<open>The two queries of \<open>LoadTableData\<close>\<close>

lemma db_store_view [simp]: "db_store (db_view c) c = c"
  by (cases c) (auto simp: db_store_def db_view_def split: option.splits)

lemma engine_call_fault_free:
  "fault_free c \<Longrightarrow> engine_call k c = (f, c') \<Longrightarrow> \<not> f \<and> fault_free c'"
  by (auto simp: engine_call_def fault_free_def split: list.splits)

lemma db_view_cong:
  "durable c' = durable c \<Longrightarrow> pending c' = pending c \<Longrightarrow> db_view c' = db_view c"
  by (simp add: db_view_def split: option.splits)

lemma engine_call_view: "engine_call k c = (f, c') \<Longrightarrow> db_view c' = db_view c"
  using engine_call_keeps[of k c f c'] by (intro db_view_cong) simp_all

lemma columns_loop_eq:
  "columns_loop rows acc = acc @ map (\<lambda>row. value_at row 1) rows"
  by (induction rows arbitrary: acc) auto

text \<open>A statement that reads leaves the connection as it is.\<close>

lemma run_GET_COLUMNS:
  "run_on E (GET_COLUMNS_QUERY t) vals c
     = (eng_query E (sql_text (GET_COLUMNS_QUERY t)) (db_view c), c)"
  by (auto simp: run_on_def split: option.splits)


lemma GetTableColumns_result:
  assumes "GetTableColumns E t c = (cols, c')"
  shows "durable c' = durable c \<and> pending c' = pending c \<and> is_open c' = is_open c
       \<and> calls c' = calls c @ [Exec (GET_COLUMNS_QUERY t)] \<and> faults c' = drop 1 (faults c)
       \<and> (cols \<noteq> [] \<longrightarrow> is_open c \<and> cols = catalog E t (db_view c))"
proof -
  obtain f c1 where e: "engine_call (Exec (GET_COLUMNS_QUERY t)) c = (f, c1)"
    by (cases "engine_call (Exec (GET_COLUMNS_QUERY t)) c")
  note k = engine_call_keeps[OF e] engine_call_calls[OF e] engine_call_faults[OF e]
    engine_call_view[OF e]
  show ?thesis
  proof (cases "f \<or> \<not> is_open c1")
    case True
    with assms e have "cols = []" "c' = c1"
      by (auto simp: GetTableColumns_def exec_query_def)
    with k show ?thesis by simp
  next
    case False
    with assms e have "c' = c1"
      "cols = (case eng_query E (sql_text (GET_COLUMNS_QUERY t)) (db_view c1) of
                 None \<Rightarrow> [] | Some rows \<Rightarrow> columns_loop rows [])"
      by (auto simp: GetTableColumns_def exec_query_def run_GET_COLUMNS split: option.splits)
    with k False show ?thesis
      by (auto simp: catalog_def columns_loop_eq split: option.splits)
  qed
qed

lemma GetTableColumns_ok:
  assumes "is_open c" and "fault_free c"
  shows "\<exists>c'. GetTableColumns E t c = (catalog E t (db_view c), c') \<and> fault_free c'"
proof -
  obtain f c1 where e: "engine_call (Exec (GET_COLUMNS_QUERY t)) c = (f, c1)"
    by (cases "engine_call (Exec (GET_COLUMNS_QUERY t)) c")
  note k = engine_call_keeps[OF e] engine_call_fault_free[OF assms(2) e] engine_call_view[OF e]
  from e k assms(1) show ?thesis
    by (auto simp: GetTableColumns_def exec_query_def run_GET_COLUMNS catalog_def
          columns_loop_eq split: option.splits)
qed








section \<open>Committing a grid: success\<close>

subsection \<open>The calls of a commit, one by one\<close>

lemma fault_free_drop: "fault_free c \<Longrightarrow> faults c' = drop n (faults c) \<Longrightarrow> fault_free c'"
  by (auto simp: fault_free_def dest: in_set_dropD)

lemma rollback_more [simp]:
  "faults (rollback c) = faults c" "calls (rollback c) = calls c @ [Rollback]"
  by (simp_all add: rollback_def)

lemma transaction_True_calls:
  "transaction c = (True, c') \<Longrightarrow>
     calls c' = calls c @ [Transaction] \<and> faults c' = drop 1 (faults c) \<and> is_open c"
  by (auto simp: transaction_def split: prod.splits if_splits
      dest: engine_call_keeps engine_call_calls engine_call_faults)

lemma transaction_ok:
  assumes "is_open c" and "fault_free c" and "pending c = None"
  shows "\<exists>c'. transaction c = (True, c') \<and> fault_free c'"
proof -
  obtain f c1 where e: "engine_call Transaction c = (f, c1)"
    by (cases "engine_call Transaction c")
  from engine_call_keeps[OF e] engine_call_fault_free[OF assms(2) e] assms e
  show ?thesis by (simp add: transaction_def fault_free_def)
qed

lemma run_on_keeps:
  "run_on E q vals c = (r, c') \<Longrightarrow>
     calls c' = calls c \<and> faults c' = faults c \<and> is_open c' = is_open c"
  by (auto simp: run_on_def db_store_def split: option.splits prod.splits)

lemma exec_query_calls:
  assumes "exec_query E q c = (r, c')"
  shows "calls c' = calls c @ [Exec q] \<and> faults c' = drop 1 (faults c)
       \<and> is_open c' = is_open c"
proof -
  obtain f c1 where e: "engine_call (Exec q) c = (f, c1)"
    by (cases "engine_call (Exec q) c")
  note k = engine_call_keeps[OF e] engine_call_calls[OF e] engine_call_faults[OF e]
  show ?thesis
  proof (cases "f \<or> \<not> is_open c1")
    case True
    with assms e have "c' = c1" by (auto simp: exec_query_def)
    with k show ?thesis by simp
  next
    case False
    with assms e have "run_on E q [] c1 = (r, c')" by (auto simp: exec_query_def)
    from run_on_keeps[OF this] k show ?thesis by simp
  qed
qed

lemma exec_prepared_calls:
  assumes "exec_prepared E q vals c = (r, c')"
  shows "calls c' = calls c @ [ExecPrepared q vals] \<and> faults c' = drop 1 (faults c)
       \<and> is_open c' = is_open c"
proof -
  obtain f c1 where e: "engine_call (ExecPrepared q vals) c = (f, c1)"
    by (cases "engine_call (ExecPrepared q vals) c")
  note k = engine_call_keeps[OF e] engine_call_calls[OF e] engine_call_faults[OF e]
  show ?thesis
  proof (cases "f \<or> \<not> is_open c1")
    case True
    with assms e have "c' = c1" by (auto simp: exec_prepared_def)
    with k show ?thesis by simp
  next
    case False
    with assms e have "run_on E q vals c1 = (r, c')" by (auto simp: exec_prepared_def)
    from run_on_keeps[OF this] k show ?thesis by simp
  qed
qed

lemma run_on_Some:
  assumes "run_on E q vals c = (Some rows, c')" and "pending c = Some d"
  shows "\<exists>d'. run_statement E q vals d = Some (rows, d') \<and> pending c' = Some d'
            \<and> durable c' = durable c"
  using assms
  by (auto simp: run_on_def db_view_def db_store_def split: option.splits)

lemma exec_query_Some:
  assumes "exec_query E q c = (Some rows, c')" and "pending c = Some d"
  shows "\<exists>d'. run_statement E q [] d = Some (rows, d') \<and> pending c' = Some d'
            \<and> durable c' = durable c \<and> is_open c'"
proof -
  obtain f c1 where e: "engine_call (Exec q) c = (f, c1)"
    by (cases "engine_call (Exec q) c")
  note k = engine_call_keeps[OF e]
  from assms(1) e have o: "is_open c1" and r: "run_on E q [] c1 = (Some rows, c')"
    by (auto simp: exec_query_def split: if_splits)
  from k assms(2) have "pending c1 = Some d" by simp
  from run_on_Some[OF r this] run_on_keeps[OF r] k o show ?thesis by auto
qed


lemma exec_query_ok:
  assumes "is_open c" and "fault_free c"
    and "run_statement E q [] (db_view c) = Some (rows, d')"
  shows "\<exists>c'. exec_query E q c = (Some rows, c') \<and> fault_free c'"
proof -
  obtain f c1 where e: "engine_call (Exec q) c = (f, c1)"
    by (cases "engine_call (Exec q) c")
  note k = engine_call_keeps[OF e] engine_call_fault_free[OF assms(2) e] engine_call_view[OF e]
  from assms(3) k have "run_on E q [] c1 = (Some rows, db_store d' c1)"
    by (simp add: run_on_def)
  with e k assms(1) run_on_keeps[OF this] show ?thesis
    by (auto simp: exec_query_def fault_free_def)
qed

lemma prepare_query_result:
  assumes "prepare_query E q c = (ok, c')"
  shows "calls c' = calls c @ [Prepare q] \<and> faults c' = drop 1 (faults c)
       \<and> (ok \<longrightarrow> is_open c \<and> compiles E q (db_view c))
       \<and> (is_open c \<and> fault_free c \<longrightarrow> fault_free c' \<and> ok = compiles E q (db_view c))"
proof -
  obtain f c1 where e: "engine_call (Prepare q) c = (f, c1)"
    by (cases "engine_call (Prepare q) c")
  note k = engine_call_keeps[OF e] engine_call_calls[OF e] engine_call_faults[OF e]
    engine_call_view[OF e]
  from assms e have "c' = c1" "ok = (\<not> f \<and> is_open c1 \<and> compiles E q (db_view c1))"
    by (auto simp: prepare_query_def)
  with k engine_call_fault_free[OF _ e] show ?thesis by auto
qed

lemma commit_True:
  "commit c = (True, c') \<Longrightarrow>
     pending c = Some (durable c') \<and> pending c' = None \<and> is_open c'
     \<and> calls c' = calls c @ [Commit]"
  by (auto simp: commit_def split: prod.splits if_splits option.splits
      dest: engine_call_keeps engine_call_calls)

lemma commit_ok:
  assumes "is_open c" and "fault_free c" and "pending c = Some d"
  shows "\<exists>c'. commit c = (True, c') \<and> fault_free c'"
proof -
  obtain f c1 where e: "engine_call Commit c = (f, c1)"
    by (cases "engine_call Commit c")
  from engine_call_keeps[OF e] engine_call_fault_free[OF assms(2) e] assms e
  show ?thesis by (simp add: commit_def fault_free_def)
qed

subsection \<open>The column names\<close>

lemma column_names_loop_result:
  "column_names_loop E t w ns acc c = (names, c') \<Longrightarrow>
     durable c' = durable c \<and> pending c' = pending c \<and> is_open c' = is_open c
     \<and> calls c' = calls c @ replicate (length (filter (\<lambda>n. horizontalHeaderItem w n = None) ns))
                               (Exec (GET_COLUMNS_QUERY t))
     \<and> length names = length acc + length ns"
proof (induction ns arbitrary: acc c)
  case Nil
  then show ?case by simp
next
  case (Cons n ns)
  show ?case
  proof (cases "horizontalHeaderItem w n")
    case (Some label)
    with Cons.prems have "column_names_loop E t w ns (acc @ [label]) c = (names, c')" by simp
    from Cons.IH[OF this] Some show ?thesis by simp
  next
    case None
    obtain dbc c1 where g: "GetTableColumns E t c = (dbc, c1)"
      by (cases "GetTableColumns E t c")
    from Cons.prems None g
    obtain x where l: "column_names_loop E t w ns (acc @ [x]) c1 = (names, c')"
      by (auto split: if_splits)
    from Cons.IH[OF l] GetTableColumns_result[OF g] None show ?thesis
      by (simp add: replicate_append_same)
  qed
qed



text \<open>Without a fault, every look-up returns the catalog's column list, and the loop
  computes the three-way resolution.\<close>

lemma column_names_loop_ok:
  assumes "is_open c" and "fault_free c"
  shows "\<exists>c'. column_names_loop E t w ns acc c
                = (acc @ map (resolved_name w (catalog E t (db_view c))) ns, c')
              \<and> fault_free c'"
  using assms
proof (induction ns arbitrary: acc c)
  case Nil
  then show ?case by simp
next
  case (Cons n ns)
  let ?cat = "catalog E t (db_view c)"
  show ?case
  proof (cases "horizontalHeaderItem w n")
    case (Some label)
    from Cons.IH[OF Cons.prems, of "acc @ [label]"] Some show ?thesis
      by (simp add: resolved_name_def)
  next
    case None
    from GetTableColumns_ok[OF Cons.prems, of E t] obtain c1 where
      g: "GetTableColumns E t c = (?cat, c1)" and f1: "fault_free c1" by blast
    from GetTableColumns_result[OF g] Cons.prems
    have k: "is_open c1" "db_view c1 = db_view c" by (auto intro: db_view_cong)
    from Cons.IH[OF k(1) f1, of "acc @ [resolved_name w ?cat n]"] None g k(2)
    show ?thesis
      by (cases "n < length ?cat") (simp_all add: resolved_name_def)
  qed
qed

subsection \<open>The loop over the rows\<close>

text \<open>The calls of the loop are those of its rows, all of them when it succeeds, and
  the first few followed by the rollback when it fails.\<close>

lemma insert_rows_loop_calls:
  assumes "insert_rows_loop E q w rs c = (ok, c')"
  shows "is_open c' = is_open c \<and> (\<exists>n. faults c' = drop n (faults c))
       \<and> (\<exists>m. calls c' = calls c @
              (if ok then concat (map (\<lambda>r. [Prepare q, ExecPrepared q (row_values w r)]) rs)
               else take m (concat (map (\<lambda>r. [Prepare q, ExecPrepared q (row_values w r)]) rs))
                      @ [Rollback]))"
  using assms
proof (induction rs arbitrary: c)
  case Nil
  then have "ok" "c' = c" by auto
  then show ?case by (auto intro: exI[of _ 0])
next
  case (Cons r rs)
  let ?rest = "concat (map (\<lambda>r. [Prepare q, ExecPrepared q (row_values w r)]) rs)"
  obtain p c1 where p: "prepare_query E q c = (p, c1)" by (cases "prepare_query E q c")
  from prepare_query_keeps[OF p] prepare_query_result[OF p]
  have k1: "is_open c1 = is_open c" "calls c1 = calls c @ [Prepare q]"
    "faults c1 = drop 1 (faults c)" by auto
  show ?case
  proof (cases p)
    case False
    with Cons.prems p have r: "\<not> ok" "c' = rollback c1" by auto
    have "calls c' = calls c @ take 1 (Prepare q # ExecPrepared q (row_values w r) # ?rest)
            @ [Rollback]"
      using r k1 by simp
    with r k1 show ?thesis by (auto intro: exI[of _ 1])
  next
    case True
    obtain e c2 where e: "exec_prepared E q (row_values w r) c1 = (e, c2)"
      by (cases "exec_prepared E q (row_values w r) c1")
    from exec_prepared_calls[OF e] k1
    have k2: "is_open c2 = is_open c"
      "calls c2 = calls c @ [Prepare q, ExecPrepared q (row_values w r)]"
      "faults c2 = drop 2 (faults c)" by (simp_all add: eval_nat_numeral)
    show ?thesis
    proof (cases e)
      case None
      with Cons.prems p True e have r: "\<not> ok" "c' = rollback c2" by auto
      have "calls c' = calls c @ take 2 (Prepare q # ExecPrepared q (row_values w r) # ?rest)
              @ [Rollback]"
        using r k2 by simp
      with r k2 show ?thesis by (auto intro: exI[of _ 2])
    next
      case (Some rows)
      with Cons.prems p True e have "insert_rows_loop E q w rs c2 = (ok, c')" by simp
      from Cons.IH[OF this] obtain n m where
        i: "is_open c' = is_open c2" "faults c' = drop n (faults c2)"
        "calls c' = calls c2 @ (if ok then ?rest else take m ?rest @ [Rollback])"
        by blast
      from i(2) k2 have f: "faults c' = drop (n + 2) (faults c)" by simp
      have "calls c' = calls c @
              (if ok then Prepare q # ExecPrepared q (row_values w r) # ?rest
               else take (Suc (Suc m)) (Prepare q # ExecPrepared q (row_values w r) # ?rest)
                      @ [Rollback])"
        using i(3) k2 by simp
      with i(1) k2 f show ?thesis by (auto intro: exI[of _ "Suc (Suc m)"])
    qed
  qed
qed


subsection \<open>The whole commit\<close>



text \<open>A commit on an engine that raises no fault and accepts the delete.\<close>

lemma replace_rows_fault_free:
  assumes "is_open c" and "fault_free c" and "pending c = None"
    and "eng_update E (sql_text (DELETE_ALL_QUERY t)) [] (durable c) = Some d2"
  shows "written_names E t w c = map (resolved_name w (catalog E t d2)) [0..<columnCount w]"
    and "replace_rows E t w c = (ok, c') \<Longrightarrow>
           \<exists>m. calls c' =
                 calls c @ [Transaction, Exec (DELETE_ALL_QUERY t)]
                   @ replicate (headerless w) (Exec (GET_COLUMNS_QUERY t))
                   @ [Prepare (insert_statement t (written_names E t w c))]
                   @ (if ok then row_calls (insert_statement t (written_names E t w c)) w
                                  @ [Commit]
                      else take m (row_calls (insert_statement t (written_names E t w c)) w)
                             @ [Rollback])"
    and "rowCount w = 0 \<Longrightarrow>
         eng_prepare E (sql_text (insert_statement t (written_names E t w c))) d2 \<Longrightarrow>
           \<exists>c'. replace_rows E t w c = (True, c') \<and> durable c' = d2 \<and> pending c' = None
              \<and> calls c' =
                 calls c @ [Transaction, Exec (DELETE_ALL_QUERY t)]
                   @ replicate (headerless w) (Exec (GET_COLUMNS_QUERY t))
                   @ [Prepare (insert_statement t (written_names E t w c)), Commit]"
proof -
  from transaction_ok[OF assms(1,2,3)] obtain c1 where
    1: "transaction c = (True, c1)" and f1: "fault_free c1" by blast
  from transaction_True[OF 1] transaction_True_calls[OF 1]
  have k1: "durable c1 = durable c" "pending c1 = Some (durable c)" "is_open c1"
    "calls c1 = calls c @ [Transaction]" by auto
  then have v1: "db_view c1 = durable c" by (simp add: db_view_def)
  from assms(4) v1
  have "run_statement E (DELETE_ALL_QUERY t) [] (db_view c1) = Some ([], d2)" by simp
  from exec_query_ok[OF k1(3) f1 this] obtain c2 where
    2: "exec_query E (DELETE_ALL_QUERY t) c1 = (Some [], c2)" and f2: "fault_free c2" by blast
  from exec_query_Some[OF 2 k1(2)] exec_query_calls[OF 2] assms(4)
  have k2: "pending c2 = Some d2" "is_open c2"
    "calls c2 = calls c1 @ [Exec (DELETE_ALL_QUERY t)]" by auto
  then have v2: "db_view c2 = d2" by (simp add: db_view_def)
  let ?names = "map (resolved_name w (catalog E t d2)) [0..<columnCount w]"
  from column_names_loop_ok[OF k2(2) f2, of E t w "[0..<columnCount w]" "[]"] v2
  obtain c3 where 3: "column_names_loop E t w [0..<columnCount w] [] c2 = (?names, c3)"
    and f3: "fault_free c3" by auto
  show wn: "written_names E t w c = ?names"
    by (simp add: written_names_def after_delete_def 1 2 3)
  from column_names_loop_result[OF 3] k2
  have k3: "pending c3 = Some d2" "is_open c3"
    "calls c3 = calls c2 @ replicate (headerless w) (Exec (GET_COLUMNS_QUERY t))"
    by (simp_all add: headerless_def)
  then have v3: "db_view c3 = d2" by (simp add: db_view_def)
  define q where "q = INSERT_QUERY_TEMPLATE t ?names (replicate (length ?names) ''?'')"
  have qs: "insert_statement t (written_names E t w c) = q"
    by (simp add: insert_statement_def wn q_def)
  obtain ok4 c4 where 4: "prepare_query E q c3 = (ok4, c4)" by (cases "prepare_query E q c3")
  from prepare_query_keeps[OF 4] prepare_query_result[OF 4] k3 f3 v3
  have k4: "pending c4 = Some d2" "is_open c4" "fault_free c4"
    "calls c4 = calls c3 @ [Prepare q]" "ok4 = compiles E q d2" by auto
  have base: "calls c4 = calls c @ [Transaction, Exec (DELETE_ALL_QUERY t)]
                @ replicate (headerless w) (Exec (GET_COLUMNS_QUERY t)) @ [Prepare q]"
    using k1 k2 k3 k4 by simp
  have cq: "compiles E q d2 = eng_prepare E (sql_text q) d2" by (simp add: q_def)
  {
    assume r: "replace_rows E t w c = (ok, c')"
    obtain ok5 c5 where 5: "insert_rows_loop E q w [0..<rowCount w] c4 = (ok5, c5)"
      by (cases "insert_rows_loop E q w [0..<rowCount w] c4")
    from insert_rows_loop_calls[OF 5, folded row_calls_def] obtain n m where
      k5: "is_open c5 = is_open c4" "faults c5 = drop n (faults c4)"
        "calls c5 = calls c4 @ (if ok5 then row_calls q w else take m (row_calls q w) @ [Rollback])"
      by blast
    from fault_free_drop[OF k4(3) k5(2)] have f5: "fault_free c5" .
    from insert_rows_loop_in_transaction[OF _ 5] k4(1)
    have p5: "(pending c5 = None) = (\<not> ok5)" by simp
    show "\<exists>m. calls c' =
                 calls c @ [Transaction, Exec (DELETE_ALL_QUERY t)]
                   @ replicate (headerless w) (Exec (GET_COLUMNS_QUERY t))
                   @ [Prepare (insert_statement t (written_names E t w c))]
                   @ (if ok then row_calls (insert_statement t (written_names E t w c)) w
                                  @ [Commit]
                      else take m (row_calls (insert_statement t (written_names E t w c)) w)
                             @ [Rollback])"
    proof (cases ok4)
      case False
      with r 1 2 3 4 have "ok = False" "c' = rollback c4"
        by (simp_all add: replace_rows_def q_def)
      with base show ?thesis by (auto simp: qs intro: exI[of _ 0])
    next
      case True
      show ?thesis
      proof (cases ok5)
        case False
        with r 1 2 3 4 5 True have "ok = False" "c' = c5"
          by (simp_all add: replace_rows_def q_def)
        with base k5(3) False show ?thesis by (auto simp: qs intro: exI[of _ m])
      next
        case t5: True
        with p5 obtain d5 where "pending c5 = Some d5" by auto
        from commit_ok[OF _ f5 this] k5(1) k4(2) obtain c6 where
          6: "commit c5 = (True, c6)" by auto
        with r 1 2 3 4 5 True t5 have "ok = True" "c' = c6"
          by (simp_all add: replace_rows_def q_def)
        with base k5(3) t5 commit_True[OF 6] show ?thesis by (simp add: qs)
      qed
    qed
  }
  {
    assume r0: "rowCount w = 0"
      and pr: "eng_prepare E (sql_text (insert_statement t (written_names E t w c))) d2"
    from pr k4(5) cq have ok4: "ok4" by (simp add: qs)
    from commit_ok[OF k4(2,3,1)] obtain c6 where 6: "commit c4 = (True, c6)" by blast
    from 1 2 3 4 ok4 6 r0 have "replace_rows E t w c = (True, c6)"
      by (simp add: replace_rows_def q_def)
    with commit_True[OF 6] k4(1) base
    show "\<exists>c'. replace_rows E t w c = (True, c') \<and> durable c' = d2 \<and> pending c' = None
              \<and> calls c' =
                 calls c @ [Transaction, Exec (DELETE_ALL_QUERY t)]
                   @ replicate (headerless w) (Exec (GET_COLUMNS_QUERY t))
                   @ [Prepare (insert_statement t (written_names E t w c)), Commit]"
      by (simp add: qs)
  }
qed

lemma UpdateCompleteTable_replace_rows:
  "FileLoaded s \<Longrightarrow> t \<noteq> [] \<Longrightarrow> is_open (SqlDatabase s) \<Longrightarrow>
     UpdateCompleteTable E t (Some w) s
       = (fst (replace_rows E t w (SqlDatabase s)),
          s\<lparr>SqlDatabase := snd (replace_rows E t w (SqlDatabase s))\<rparr>)"
  by (simp add: UpdateCompleteTable_def split: prod.splits)


text \<open>
  Claim C5. On an engine that raises no fault and accepts the delete, with the parameter
  checks passed, the column names \<open>UpdateCompleteTable\<close> writes are, position by position,
  the grid's header label if present, otherwise the column the catalog lists at that
  position, otherwise \<open>Column_<n+1>\<close>. The calls of the commit show that the names are
  resolved once: after the delete come the column look-ups, one for each column without a
  header item, then the statement built from the names is prepared, and the loop over the
  rows prepares and executes that same statement row by row, with no further look-up,
  up to the commit or, if the engine rejects the statement or a row, up to the rollback.
\<close>

theorem column_names_resolved_once:
  assumes "FileLoaded s" and "tableName \<noteq> []" and "is_open (SqlDatabase s)"
    and "fault_free (SqlDatabase s)" and "pending (SqlDatabase s) = None"
    and "eng_update E (sql_text (DELETE_ALL_QUERY tableName)) [] (durable (SqlDatabase s))
           = Some d2"
    and "UpdateCompleteTable E tableName (Some w) s = (ok, s')"
  shows "written_names E tableName w (SqlDatabase s)
           = map (resolved_name w (catalog E tableName d2)) [0..<columnCount w]
       \<and> (\<exists>m. calls (SqlDatabase s') =
           calls (SqlDatabase s) @ [Transaction, Exec (DELETE_ALL_QUERY tableName)]
             @ replicate (headerless w) (Exec (GET_COLUMNS_QUERY tableName))
             @ [Prepare (insert_statement tableName
                           (written_names E tableName w (SqlDatabase s)))]
             @ (if ok
                then row_calls
                       (insert_statement tableName
                          (written_names E tableName w (SqlDatabase s))) w
                     @ [Commit]
                else take m
                       (row_calls
                          (insert_statement tableName
                             (written_names E tableName w (SqlDatabase s))) w)
                     @ [Rollback]))"
proof -
  let ?c = "SqlDatabase s"
  note ff = replace_rows_fault_free[OF assms(3,4,5,6), of w]
  from assms(7) UpdateCompleteTable_replace_rows[OF assms(1,2,3), of E w]
  have r: "replace_rows E tableName w ?c = (ok, SqlDatabase s')" by (auto simp: prod_eq_iff)
  from ff(1) ff(2)[OF r] show ?thesis by simp
qed

text \<open>A grid for \<open>users\<close> whose first column has no header item: one look-up, and both
  rows are inserted with the columns \<open>id, name\<close>.\<close>

theorem column_names_resolved_once_witness:
  "written_names plain_engine ''users'' partial_header_grid (SqlDatabase (shop_worker []))
     = [''id'', ''name'']
   \<and> (case UpdateCompleteTable plain_engine ''users'' (Some partial_header_grid)
             (shop_worker []) of
        (ok, s') \<Rightarrow>
          ok = True
          \<and> calls (SqlDatabase s')
              = calls (SqlDatabase (shop_worker []))
                @ [Transaction, Exec (DELETE_ALL_QUERY ''users''),
                   Exec (GET_COLUMNS_QUERY ''users''),
                   Prepare (INSERT_QUERY_TEMPLATE ''users'' [''id'', ''name''] [''?'', ''?'']),
                   Prepare (INSERT_QUERY_TEMPLATE ''users'' [''id'', ''name''] [''?'', ''?'']),
                   ExecPrepared
                     (INSERT_QUERY_TEMPLATE ''users'' [''id'', ''name''] [''?'', ''?''])
                     [''7'', ''Di''],
                   Prepare (INSERT_QUERY_TEMPLATE ''users'' [''id'', ''name''] [''?'', ''?'']),
                   ExecPrepared
                     (INSERT_QUERY_TEMPLATE ''users'' [''id'', ''name''] [''?'', ''?''])
                     [[], ''Ed''],
                   Commit])"
proof -
  let ?s = "shop_worker []"
  let ?d2 = "[users_table\<lparr>obj_rows := []\<rparr>]"
  obtain ok s' where
    r: "UpdateCompleteTable plain_engine ''users'' (Some partial_header_grid) ?s = (ok, s')"
    by (cases "UpdateCompleteTable plain_engine ''users'' (Some partial_header_grid) ?s")
  have a: "FileLoaded ?s \<and> is_open (SqlDatabase ?s) \<and> fault_free (SqlDatabase ?s)
      \<and> pending (SqlDatabase ?s) = None
      \<and> eng_update plain_engine (sql_text (DELETE_ALL_QUERY ''users'')) []
           (durable (SqlDatabase ?s)) = Some ?d2"
    by code_simp
  have e: "case UpdateCompleteTable plain_engine ''users'' (Some partial_header_grid) ?s of
             (ok, s') \<Rightarrow> ok = True"
    by code_simp
  with r have ok: "ok" by simp
  have n: "''users'' \<noteq> []" by simp
  have m: "map (resolved_name partial_header_grid (catalog plain_engine ''users'' ?d2))
             [0..<columnCount partial_header_grid] = [''id'', ''name'']" by code_simp
  have h: "headerless partial_header_grid = 1" by code_simp
  have rc: "row_calls (INSERT_QUERY_TEMPLATE ''users'' [''id'', ''name''] [''?'', ''?''])
              partial_header_grid
            = [Prepare (INSERT_QUERY_TEMPLATE ''users'' [''id'', ''name''] [''?'', ''?'']),
               ExecPrepared (INSERT_QUERY_TEMPLATE ''users'' [''id'', ''name''] [''?'', ''?''])
                 [''7'', ''Di''],
               Prepare (INSERT_QUERY_TEMPLATE ''users'' [''id'', ''name''] [''?'', ''?'']),
               ExecPrepared (INSERT_QUERY_TEMPLATE ''users'' [''id'', ''name''] [''?'', ''?''])
                 [[], ''Ed'']]" by code_simp
  from a have a1: "FileLoaded ?s" and a2: "is_open (SqlDatabase ?s)"
    and a3: "fault_free (SqlDatabase ?s)" and a4: "pending (SqlDatabase ?s) = None"
    and a5: "eng_update plain_engine (sql_text (DELETE_ALL_QUERY ''users'')) []
           (durable (SqlDatabase ?s)) = Some ?d2" by simp_all
  from column_names_resolved_once[OF a1 n a2 a3 a4 a5 r] ok m h rc r show ?thesis
    by (simp add: insert_statement_def)
qed




subsection \<open>Round trips\<close>













end
